theory Spec2Isabelle
  imports Main "HOL-Library.Word" "HOL-Library.Multiset"
begin

unbundle bit_operations_syntax

chapter \<open>BusyBee status display: embedding of the sketch\<close>

text \<open>
  The definitions below follow \<^verbatim>\<open>src/unnamed/part_000\<close>, the sketch of the
  BusyBee status display. Global and function-static variables become fields of
  records that are passed and returned; \<^verbatim>\<open>uint8_t\<close>, \<^verbatim>\<open>uint16_t\<close>,
  \<^verbatim>\<open>uint32_t\<close> and \<^verbatim>\<open>unsigned long\<close> (32 bits on the ESP32) become words.
  Drawing on the sprite has no influence on the data and is left out.
\<close>

type_synonym u8 = "8 word"
type_synonym u16 = "16 word"
type_synonym u32 = "32 word"

section \<open>Game of Life: grid, alpha fade, transition, fingerprint\<close>

definition screenWidth :: nat where
  "screenWidth = 320"

definition screenHeight :: nat where
  "screenHeight = 170"

definition golCellSize :: nat where
  "golCellSize = 6"

definition HASH_HISTORY :: nat where
  "HASH_HISTORY = 8"

type_synonym grid = "u8 list list"

text \<open>
  The globals \<^verbatim>\<open>golCols, golRows, golFrame, golGrid, golNext\<close> and the statics of
  \<^verbatim>\<open>stepGameOfLife\<close>.
\<close>

record gol =
  golCols :: nat
  golRows :: nat
  golFrame :: nat
  golGrid :: grid
  golNext :: grid
  hashHistory :: "u32 list"
  hashIdx :: nat
  prevGrid :: grid
  alphaGrid :: grid

text \<open>\<^verbatim>\<open>v.assign(rows, std::vector<uint8_t>(cols, 0))\<close>.\<close>

definition blank_grid :: "nat \<Rightarrow> nat \<Rightarrow> grid" where
  "blank_grid rows cols = replicate rows (replicate cols 0)"

text \<open>
  \<^verbatim>\<open>initGameOfLife\<close>. The argument \<open>rnd\<close> gives the value of the k-th call of
  \<^verbatim>\<open>rand()\<close>; the cells are filled row by row.
\<close>

definition initGameOfLife :: "(nat \<Rightarrow> nat) \<Rightarrow> gol \<Rightarrow> gol" where
  "initGameOfLife rnd s =
     (let cols = screenWidth div golCellSize;
          rows = screenHeight div golCellSize
      in s\<lparr>golCols := cols, golRows := rows,
            golGrid := map (\<lambda>y. map (\<lambda>x. if rnd (y * cols + x) mod 4 = 0 then 1 else 0) [0..<cols])
                           [0..<rows],
            golNext := blank_grid rows cols,
            golFrame := 0\<rparr>)"

text \<open>
  The alpha update of one cell (lines 335 to 343). The alpha is a \<^verbatim>\<open>uint8_t\<close>:
  \<^verbatim>\<open>+= 32\<close> is stored back modulo 256, and the comparison \<^verbatim>\<open>> 255\<close> is made
  on the stored value promoted to \<^verbatim>\<open>int\<close>.
\<close>

definition alpha_update :: "u8 \<Rightarrow> u8 \<Rightarrow> u8" where
  "alpha_update cell a =
     (if cell \<noteq> 0 then
        (let a1 = (if uint a < 255 then a + 32 else a)
         in if uint a1 > 255 then 255 else a1)
      else if uint a > 0 then (if uint a > 32 then a - 32 else 0)
      else a)"

definition alpha_phase :: "gol \<Rightarrow> gol" where
  "alpha_phase s =
     (let s1 = (if length (prevGrid s) \<noteq> golRows s
                then s\<lparr>prevGrid := blank_grid (golRows s) (golCols s)\<rparr> else s);
          s2 = (if length (alphaGrid s1) \<noteq> golRows s1
                then s1\<lparr>alphaGrid := blank_grid (golRows s1) (golCols s1)\<rparr> else s1)
      in s2\<lparr>alphaGrid :=
              map (\<lambda>y. map (\<lambda>x. alpha_update (golGrid s2 ! y ! x) (alphaGrid s2 ! y ! x))
                            [0..<golCols s2])
                  [0..<golRows s2]\<rparr>)"

text \<open>
  The neighbour offsets in the order of the two inner loops, without \<open>(0, 0)\<close>;
  the first component is \<^verbatim>\<open>dy\<close>.
\<close>

definition neighbour_offsets :: "(int \<times> int) list" where
  "neighbour_offsets =
     [(-1, -1), (-1, 0), (-1, 1), (0, -1), (0, 1), (1, -1), (1, 0), (1, 1)]"

text \<open>\<^verbatim>\<open>(i + d + n) % n\<close> on \<^verbatim>\<open>int\<close>; the dividend is never negative.\<close>

definition wrap_idx :: "nat \<Rightarrow> int \<Rightarrow> nat \<Rightarrow> nat" where
  "wrap_idx i d n = nat ((int i + d + int n) mod int n)"

definition live_neighbours :: "grid \<Rightarrow> nat \<Rightarrow> nat \<Rightarrow> nat \<Rightarrow> nat \<Rightarrow> int" where
  "live_neighbours g rows cols y x =
     fold (\<lambda>(dy, dx) live. live + uint (g ! wrap_idx y dy rows ! wrap_idx x dx cols))
          neighbour_offsets 0"

definition next_cell :: "grid \<Rightarrow> nat \<Rightarrow> nat \<Rightarrow> nat \<Rightarrow> nat \<Rightarrow> u8" where
  "next_cell g rows cols y x =
     (let live = live_neighbours g rows cols y x
      in if g ! y ! x \<noteq> 0 then (if live = 2 \<or> live = 3 then 1 else 0)
         else (if live = 3 then 1 else 0))"

text \<open>
  The transition (lines 383 to 399): every cell of \<^verbatim>\<open>golNext\<close> is written, then
  \<^verbatim>\<open>prevGrid = golGrid; golGrid.swap(golNext); golFrame++\<close>.
\<close>

definition transition_phase :: "gol \<Rightarrow> gol" where
  "transition_phase s =
     (let nxt = map (\<lambda>y. map (\<lambda>x. next_cell (golGrid s) (golRows s) (golCols s) y x)
                              [0..<golCols s])
                    [0..<golRows s]
      in s\<lparr>prevGrid := golGrid s, golGrid := nxt, golNext := golGrid s,
            golFrame := golFrame s + 1\<rparr>)"

text \<open>The fingerprint (lines 401 to 405).\<close>

definition grid_hash :: "grid \<Rightarrow> nat \<Rightarrow> nat \<Rightarrow> u32" where
  "grid_hash g rows cols =
     fold (\<lambda>y h. fold (\<lambda>x h. h XOR push_bit ((x + y) mod 24) (ucast (g ! y ! x))) [0..<cols] h)
          [0..<rows] 0"

text \<open>The scan for a live cell (lines 408 to 411).\<close>

definition all_dead :: "grid \<Rightarrow> nat \<Rightarrow> nat \<Rightarrow> bool" where
  "all_dead g rows cols = list_all (\<lambda>y. list_all (\<lambda>x. g ! y ! x = 0) [0..<cols]) [0..<rows]"

text \<open>The comparison with the eight history slots (lines 413 to 419).\<close>

definition cycle_found :: "u32 list \<Rightarrow> u32 \<Rightarrow> bool" where
  "cycle_found hist h = list_ex (\<lambda>i. h = hist ! i) [0..<HASH_HISTORY]"

text \<open>
  The words of the specification for the transition: a cell is alive when its
  byte is not zero; the eight neighbours on the torus; their live count.
\<close>

definition alive :: "grid \<Rightarrow> nat \<Rightarrow> nat \<Rightarrow> bool" where
  "alive g y x = (g ! y ! x \<noteq> 0)"

definition torus_neighbours :: "nat \<Rightarrow> nat \<Rightarrow> nat \<Rightarrow> nat \<Rightarrow> (nat \<times> nat) list" where
  "torus_neighbours rows cols y x =
     (let up = (y + rows - 1) mod rows; down = (y + 1) mod rows;
          left = (x + cols - 1) mod cols; right = (x + 1) mod cols
      in [(up, left), (up, x), (up, right), (y, left), (y, right),
          (down, left), (down, x), (down, right)])"

definition live_count :: "grid \<Rightarrow> nat \<Rightarrow> nat \<Rightarrow> nat \<Rightarrow> nat \<Rightarrow> nat" where
  "live_count g rows cols y x =
     length (filter (\<lambda>(r, c). alive g r c) (torus_neighbours rows cols y x))"

text \<open>
  The shape of every grid that the sketch builds: \<open>rows\<close> rows of \<open>cols\<close> cells,
  each cell 0 or 1.
\<close>

definition grid_ok :: "grid \<Rightarrow> nat \<Rightarrow> nat \<Rightarrow> bool" where
  "grid_ok g rows cols =
     (length g = rows \<and> list_all (\<lambda>row. length row = cols \<and> list_all (\<lambda>c. c = 0 \<or> c = 1) row) g)"

section \<open>The morph animator\<close>

text \<open>
  A point is a pair \<open>(x, y)\<close>. The source holds the coordinates in \<^verbatim>\<open>float\<close>, but
  every coordinate is an integer pixel position converted to \<^verbatim>\<open>float\<close>; on the
  320 by 170 screen the differences, their squares and the sums of two squares are
  integers below \<open>2^24\<close>, which \<^verbatim>\<open>float\<close> represents exactly, and so is the initial
  \<^verbatim>\<open>minDist = 1e9\<close>. The arithmetic is therefore done on \<open>int\<close>. The colour of a
  live cell is computed in floating point and only drawn; it is left out.
\<close>

type_synonym point = "int \<times> int"

datatype error = IntegerDivideByZero

definition on_screen :: "point \<Rightarrow> bool" where
  "on_screen p = (0 \<le> fst p \<and> fst p < int screenWidth \<and> 0 \<le> snd p \<and> snd p < int screenHeight)"

text \<open>Step 2 of \<^verbatim>\<open>animateToBusyBee\<close>: the centres of the live cells in scan order.\<close>

definition collect_live :: "grid \<Rightarrow> nat \<Rightarrow> nat \<Rightarrow> point list" where
  "collect_live g rows cols =
     concat (map (\<lambda>y. concat (map (\<lambda>x.
        if g ! y ! x \<noteq> 0
        then [(int (x * golCellSize + golCellSize div 2), int (y * golCellSize + golCellSize div 2))]
        else []) [0..<cols])) [0..<rows])"

text \<open>
  The duplication loop of step 3 (lines 1112 to 1115). The index is
  \<^verbatim>\<open>usedCells.size() % liveCells.size()\<close>; with no live cell the divisor is zero,
  which traps on the target processor.
\<close>

function dup_loop :: "point list \<Rightarrow> point list \<Rightarrow> nat \<Rightarrow> error + point list" where
  "dup_loop liveCells usedCells n =
     (if length usedCells < n then
        (if length liveCells = 0 then Inl IntegerDivideByZero
         else dup_loop liveCells
                (usedCells @ [liveCells ! (length usedCells mod length liveCells)]) n)
      else Inr usedCells)"
  by pat_completeness auto
termination
  by (relation "measure (\<lambda>(l, u, n). n - length u)") auto

text \<open>
  Step 3. \<open>shuffle\<close> stands for \<^verbatim>\<open>std::random_shuffle\<close>; \<open>n\<close> is the number of
  target points.
\<close>

definition reconcile :: "(point list \<Rightarrow> point list) \<Rightarrow> point list \<Rightarrow> nat \<Rightarrow> error + point list" where
  "reconcile shuffle liveCells n =
     (if length liveCells \<ge> n then Inr (take n (shuffle liveCells))
      else dup_loop liveCells liveCells n)"

definition sqdist :: "point \<Rightarrow> point \<Rightarrow> int" where
  "sqdist c t = (fst c - fst t) * (fst c - fst t) + (snd c - snd t) * (snd c - snd t)"

text \<open>
  Step 4, the inner loop over \<^verbatim>\<open>j\<close>: the state is \<^verbatim>\<open>(minDist, minIdx)\<close>,
  starting from \<^verbatim>\<open>(1e9, -1)\<close>.
\<close>

definition nearest_step :: "bool list \<Rightarrow> point list \<Rightarrow> point \<Rightarrow> nat \<Rightarrow> int \<times> int \<Rightarrow> int \<times> int" where
  "nearest_step used cells t j st =
     (if used ! j then st
      else (let dist = sqdist (cells ! j) t
            in if dist < fst st then (dist, int j) else st))"

definition nearest :: "bool list \<Rightarrow> point list \<Rightarrow> point \<Rightarrow> int" where
  "nearest used cells t = snd (fold (nearest_step used cells t) [0..<length cells] (1000000000, -1))"

text \<open>Step 4, the outer loop over \<^verbatim>\<open>i\<close>: the state is \<^verbatim>\<open>(assignment, used)\<close>.\<close>

definition assign_step :: "point list \<Rightarrow> point list \<Rightarrow> nat \<Rightarrow> int list \<times> bool list \<Rightarrow> int list \<times> bool list" where
  "assign_step cells targets i st =
     (let minIdx = nearest (snd st) cells (targets ! i)
      in if minIdx \<ge> 0 then ((fst st)[i := minIdx], (snd st)[nat minIdx := True]) else st)"

definition assign_loop :: "point list \<Rightarrow> point list \<Rightarrow> nat \<Rightarrow> int list \<times> bool list" where
  "assign_loop cells targets k =
     fold (assign_step cells targets) [0..<k]
          (replicate (length targets) (-1), replicate (length cells) False)"

definition assign :: "point list \<Rightarrow> point list \<Rightarrow> int list" where
  "assign cells targets = fst (assign_loop cells targets (length targets))"

text \<open>
  \<^verbatim>\<open>animateToBusyBee\<close>, as far as data goes. \<open>targets\<close> are the outline pixels of
  the rendered product name in scan order; they come from the sprite and the font
  of the display library and are a parameter here. The result is the used cells
  and the assignment that the animation then draws.
\<close>

definition animateToBusyBee ::
  "point list \<Rightarrow> (point list \<Rightarrow> point list) \<Rightarrow> gol \<Rightarrow> error + (point list \<times> int list)" where
  "animateToBusyBee targets shuffle s =
     (if targets = [] then Inr ([], [])
      else (case reconcile shuffle (collect_live (golGrid s) (golRows s) (golCols s)) (length targets) of
              Inl e \<Rightarrow> Inl e
            | Inr usedCells \<Rightarrow> Inr (usedCells, assign usedCells targets)))"

section \<open>One frame of the automaton\<close>

text \<open>
  The end of \<^verbatim>\<open>stepGameOfLife\<close> (lines 401 to 430): fingerprint, dead scan,
  history comparison, history write, and the reset.
\<close>

definition check_phase ::
  "point list \<Rightarrow> (point list \<Rightarrow> point list) \<Rightarrow> (nat \<Rightarrow> nat) \<Rightarrow> gol \<Rightarrow> error + gol" where
  "check_phase targets shuffle rnd s =
     (let hash = grid_hash (golGrid s) (golRows s) (golCols s);
          allDead = all_dead (golGrid s) (golRows s) (golCols s);
          cycle = cycle_found (hashHistory s) hash;
          s1 = s\<lparr>hashHistory := (hashHistory s)[hashIdx s := hash],
                 hashIdx := (hashIdx s + 1) mod HASH_HISTORY\<rparr>
      in if allDead \<or> cycle then
           (case animateToBusyBee targets shuffle s1 of
              Inl e \<Rightarrow> Inl e
            | Inr _ \<Rightarrow> Inr ((initGameOfLife rnd s1)
                              \<lparr>hashHistory := replicate HASH_HISTORY 0, hashIdx := 0\<rparr>))
         else Inr s1)"

definition stepGameOfLife ::
  "point list \<Rightarrow> (point list \<Rightarrow> point list) \<Rightarrow> (nat \<Rightarrow> nat) \<Rightarrow> gol \<Rightarrow> error + gol" where
  "stepGameOfLife targets shuffle rnd s =
     check_phase targets shuffle rnd (transition_phase (alpha_phase s))"

text \<open>The state of the statics before the first call, with the grid of \<^verbatim>\<open>initGameOfLife\<close>.\<close>

definition gol_boot :: gol where
  "gol_boot = \<lparr>golCols = 0, golRows = 0, golFrame = 0, golGrid = [], golNext = [],
     hashHistory = replicate HASH_HISTORY 0, hashIdx = 0, prevGrid = [], alphaGrid = []\<rparr>"

section \<open>Status state, preferences and the handlers\<close>

text \<open>
  The calls \<^verbatim>\<open>prefs.putBool\<close>, \<^verbatim>\<open>putString\<close>, \<^verbatim>\<open>putUInt\<close> and \<^verbatim>\<open>putInt\<close> are
  recorded in the order in which they are made.
\<close>

datatype pval = PBool bool | PString string | PUInt u32 | PInt int

record CustomStatus =
  ctext :: string
  ccolor :: u32

text \<open>
  The status globals, the statics of \<^verbatim>\<open>handleButtonPress\<close>, the local
  \<^verbatim>\<open>lastSaveCheck\<close> of \<^verbatim>\<open>updateDisplay\<close>, and the preference writes.
\<close>

record dev =
  isBusy :: bool
  customText :: string
  customColor :: u32
  customStatuses :: "CustomStatus list"
  showBattery :: bool
  showCornerInfo :: int
  needSaveStatus :: bool
  gameOfLifeRunning :: bool
  textX :: int
  buttonPressTime :: u32
  lastRotation :: int
  lastPress :: u32
  buttonWasPressed :: bool
  statusIndex :: nat
  lastSaveCheck :: u32
  tftRotation :: int
  prefs :: "(string \<times> pval) list"

text \<open>The colour constants of the display library (RGB565).\<close>

definition TFT_RED :: u32 where
  "TFT_RED = 0xF800"

definition TFT_GREEN :: u32 where
  "TFT_GREEN = 0x07E0"

definition TFT_BLUE :: u32 where
  "TFT_BLUE = 0x001F"

text \<open>The text of the second preset, \<^verbatim>\<open>LET'S TALK\<close>.\<close>

definition LETS_TALK :: string where
  "LETS_TALK = ''LET'' @ [CHR 0x27] @ ''S TALK''"

definition longPressDuration :: u32 where
  "longPressDuration = 3000"

text \<open>
  The status buffers are \<^verbatim>\<open>char[32]\<close>. A C string ends at the first NUL;
  \<^verbatim>\<open>strncpy(dst, src, sizeof(dst) - 1); dst[sizeof(dst) - 1] = 0\<close> leaves the first
  31 characters of the source string in the buffer.
\<close>

definition c_str :: "string \<Rightarrow> string" where
  "c_str t = takeWhile (\<lambda>c. c \<noteq> CHR 0x00) t"

definition strncpy31 :: "string \<Rightarrow> string" where
  "strncpy31 src = take 31 (c_str src)"

definition rgbTo565 :: "u8 \<Rightarrow> u8 \<Rightarrow> u8 \<Rightarrow> u16" where
  "rgbTo565 r g b =
     push_bit 8 (ucast (r AND 0xF8)) OR push_bit 3 (ucast (g AND 0xFC)) OR ucast (drop_bit 3 b)"

text \<open>
  Two functions of the C library and of the Arduino \<^verbatim>\<open>String\<close> class are
  parameters: \<^verbatim>\<open>strtol(_, nullptr, 16)\<close> and \<^verbatim>\<open>String::toInt\<close>.
\<close>

record lib =
  strtol16 :: "string \<Rightarrow> int"
  toInt :: "string \<Rightarrow> int"

text \<open>The colour of a request argument \<^verbatim>\<open>#rrggbb\<close>, if it has that shape.\<close>

definition parse_color :: "lib \<Rightarrow> string \<Rightarrow> u32 option" where
  "parse_color l c =
     (if length c = 7 \<and> c ! 0 = CHR ''#'' then
        Some (ucast (rgbTo565 (word_of_int (strtol16 l (take 2 (drop 1 c))))
                              (word_of_int (strtol16 l (take 2 (drop 3 c))))
                              (word_of_int (strtol16 l (take 2 (drop 5 c))))))
      else None)"

text \<open>
  An operation that the other task can cut into is a list of steps, run one after
  the other.
\<close>

type_synonym step = "dev \<Rightarrow> dev"

definition run :: "step list \<Rightarrow> dev \<Rightarrow> dev" where
  "run steps s = fold (\<lambda>f t. f t) steps s"

definition slot_key :: "string \<Rightarrow> nat \<Rightarrow> string" where
  "slot_key name i = name @ [''123'' ! i]"

definition saveCustomStatuses :: "dev \<Rightarrow> dev" where
  "saveCustomStatuses s =
     s\<lparr>prefs := prefs s @ concat (map (\<lambda>i.
         [(slot_key ''customText'' i, PString (ctext (customStatuses s ! i))),
          (slot_key ''customColor'' i, PUInt (ccolor (customStatuses s ! i)))]) [0..<3])\<rparr>"

text \<open>\<^verbatim>\<open>saveStatus\<close> writes at once; it neither reads nor changes the flag.\<close>

definition saveStatus :: "dev \<Rightarrow> dev" where
  "saveStatus s =
     saveCustomStatuses (s\<lparr>prefs := prefs s @
       [(''isBusy'', PBool (isBusy s)), (''customText'', PString (customText s)),
        (''customColor'', PUInt (customColor s)), (''showBattery'', PBool (showBattery s)),
        (''showCornerInfo'', PInt (showCornerInfo s))]\<rparr>)"

text \<open>
  \<^verbatim>\<open>reallySaveStatus\<close> runs in the display task and takes no lock: it makes the
  eleven calls of \<^verbatim>\<open>prefs.put...\<close> one by one, each reading its value when it is
  made, and clears the flag last. A command of the web server task can land between
  any two of these steps.
\<close>

definition put :: "string \<Rightarrow> (dev \<Rightarrow> pval) \<Rightarrow> step" where
  "put key v s = s\<lparr>prefs := prefs s @ [(key, v s)]\<rparr>"

definition saveStatus_steps :: "step list" where
  "saveStatus_steps =
     [put ''isBusy'' (\<lambda>s. PBool (isBusy s)), put ''customText'' (\<lambda>s. PString (customText s)),
      put ''customColor'' (\<lambda>s. PUInt (customColor s)),
      put ''showBattery'' (\<lambda>s. PBool (showBattery s)),
      put ''showCornerInfo'' (\<lambda>s. PInt (showCornerInfo s))]
     @ concat (map (\<lambda>i.
         [put (slot_key ''customText'' i) (\<lambda>s. PString (ctext (customStatuses s ! i))),
          put (slot_key ''customColor'' i) (\<lambda>s. PUInt (ccolor (customStatuses s ! i)))]) [0..<3])"

definition reallySaveStatus_steps :: "step list" where
  "reallySaveStatus_steps = saveStatus_steps @ [\<lambda>s. s\<lparr>needSaveStatus := False\<rparr>]"

definition reallySaveStatus :: "dev \<Rightarrow> dev" where
  "reallySaveStatus s = run reallySaveStatus_steps s"

text \<open>
  The operation \<open>steps\<close> of one task with a command \<open>cmd\<close> of the other task landing
  after its first \<open>k\<close> steps.
\<close>

definition overlapped :: "nat \<Rightarrow> step \<Rightarrow> step list \<Rightarrow> dev \<Rightarrow> dev" where
  "overlapped k cmd steps s = run (drop k steps) (cmd (run (take k steps) s))"

text \<open>The check of \<^verbatim>\<open>updateDisplay\<close>, lines 228 to 234.\<close>

definition saveCheck :: "u32 \<Rightarrow> dev \<Rightarrow> dev" where
  "saveCheck currentMillis s =
     (if currentMillis - lastSaveCheck s \<ge> 1000 then
        (if needSaveStatus s then reallySaveStatus s else s)\<lparr>lastSaveCheck := currentMillis\<rparr>
      else s)"

subsection \<open>Web handlers as sequences of atomic steps\<close>

text \<open>
  A handler runs in the web server task while the display task reads the status.
  Each handler is a list of steps; a block between \<^verbatim>\<open>portENTER_CRITICAL\<close> and
  \<^verbatim>\<open>portEXIT_CRITICAL\<close> is one step, and so is each statement outside such a
  block. The states that the other task can see are at least those between the
  steps: a critical section is taken as indivisible for the display task, which is
  the most it can give, since \<^verbatim>\<open>displayStatus\<close> itself takes no lock.
\<close>

definition observable :: "step list \<Rightarrow> dev \<Rightarrow> dev list" where
  "observable steps s = map (\<lambda>k. run (take k steps) s) [0..<Suc (length steps)]"

definition serverSetCustom_steps :: "lib \<Rightarrow> string \<Rightarrow> string \<Rightarrow> step list" where
  "serverSetCustom_steps l newText newColor =
     [\<lambda>s. if length newText > 0 \<and> length newText \<le> 20
           then s\<lparr>customText := strncpy31 newText\<rparr> else s,
      \<lambda>s. (case parse_color l newColor of Some c \<Rightarrow> s\<lparr>customColor := c\<rparr> | None \<Rightarrow> s),
      \<lambda>s. s\<lparr>textX := int screenWidth\<rparr>,
      \<lambda>s. s\<lparr>needSaveStatus := True\<rparr>]"

definition serverSetCustom :: "lib \<Rightarrow> string \<Rightarrow> string \<Rightarrow> dev \<Rightarrow> dev" where
  "serverSetCustom l newText newColor = run (serverSetCustom_steps l newText newColor)"

text \<open>
  The branch of \<^verbatim>\<open>/setStatus\<close> for \<^verbatim>\<open>CUSTOM1\<close> to \<^verbatim>\<open>CUSTOM3\<close>: the slot
  index is read from the argument and, if the slot has a text, text and colour are
  written in one critical section.
\<close>

definition slot_write :: "lib \<Rightarrow> string \<Rightarrow> step" where
  "slot_write l status s =
     (let idx = toInt l (drop 6 status) - 1
      in if idx \<ge> 0 \<and> idx < 3 \<and> length (ctext (customStatuses s ! nat idx)) > 0
         then s\<lparr>customText := strncpy31 (ctext (customStatuses s ! nat idx)),
                customColor := ccolor (customStatuses s ! nat idx)\<rparr>
         else s)"

text \<open>
  The handler of \<^verbatim>\<open>/setStatus\<close>; \<open>status\<close>, \<open>argText\<close> and \<open>argColor\<close> are the
  request arguments \<^verbatim>\<open>status\<close>, \<^verbatim>\<open>customText\<close> and \<^verbatim>\<open>customColor\<close>.
\<close>

definition setStatus_steps :: "lib \<Rightarrow> string \<Rightarrow> string \<Rightarrow> string \<Rightarrow> step list" where
  "setStatus_steps l status argText argColor =
     (let finish = [\<lambda>s. s\<lparr>textX := int screenWidth\<rparr>, saveStatus]
      in if status = ''BUSY'' then
           [\<lambda>s. s\<lparr>isBusy := True\<rparr>, \<lambda>s. s\<lparr>customText := ''BUSY''\<rparr>,
            \<lambda>s. s\<lparr>customColor := TFT_RED\<rparr>] @ finish
         else if status = ''TALK'' then
           [\<lambda>s. s\<lparr>isBusy := False\<rparr>, \<lambda>s. s\<lparr>customText := LETS_TALK\<rparr>,
            \<lambda>s. s\<lparr>customColor := TFT_GREEN\<rparr>] @ finish
         else if status = ''CUSTOM'' then serverSetCustom_steps l argText argColor
         else if take 6 status = ''CUSTOM'' then [slot_write l status] @ finish
         else finish)"

definition setStatus :: "lib \<Rightarrow> string \<Rightarrow> string \<Rightarrow> string \<Rightarrow> dev \<Rightarrow> dev" where
  "setStatus l status argText argColor = run (setStatus_steps l status argText argColor)"

text \<open>The handler of \<^verbatim>\<open>/setCustomStatus\<close> for slot \<open>i\<close> (0, 1 or 2).\<close>

definition setCustomStatus_steps :: "lib \<Rightarrow> nat \<Rightarrow> string \<Rightarrow> string \<Rightarrow> step list" where
  "setCustomStatus_steps l i newText newColor =
     [\<lambda>s. if length newText \<le> 20
           then s\<lparr>customStatuses := (customStatuses s)
                    [i := (customStatuses s ! i)\<lparr>ctext := strncpy31 newText\<rparr>]\<rparr>
           else s,
      \<lambda>s. (case parse_color l newColor of
              Some c \<Rightarrow> s\<lparr>customStatuses := (customStatuses s)
                            [i := (customStatuses s ! i)\<lparr>ccolor := c\<rparr>]\<rparr>
            | None \<Rightarrow> s),
      saveCustomStatuses]"

definition setCustomStatus :: "lib \<Rightarrow> nat \<Rightarrow> string \<Rightarrow> string \<Rightarrow> dev \<Rightarrow> dev" where
  "setCustomStatus l i newText newColor = run (setCustomStatus_steps l i newText newColor)"

subsection \<open>The buttons\<close>

text \<open>
  The probe loop of lines 594 to 603, a \<^verbatim>\<open>do ... while\<close>: the result is the new
  \<^verbatim>\<open>statusIndex\<close> and the final \<^verbatim>\<open>tryCount\<close>.
\<close>

function cycle_loop :: "CustomStatus list \<Rightarrow> nat \<Rightarrow> nat \<Rightarrow> nat \<times> nat" where
  "cycle_loop slots idx tryCount =
     (let idx' = (idx + 1) mod 5; tryCount' = tryCount + 1
      in if idx' \<ge> 2 \<and> idx' \<le> 4 \<and> length (ctext (slots ! (idx' - 2))) = 0 \<and> tryCount' < 5
         then cycle_loop slots idx' tryCount'
         else (idx', tryCount'))"
  by pat_completeness auto
termination
  by (relation "measure (\<lambda>(sl, i, t). 5 - t)") auto

text \<open>The critical section of lines 604 to 620.\<close>

definition applyStatusIndex :: step where
  "applyStatusIndex s =
     (if statusIndex s = 0 then
        s\<lparr>isBusy := True, customText := ''BUSY'', customColor := TFT_RED\<rparr>
      else if statusIndex s = 1 then
        s\<lparr>isBusy := False, customText := LETS_TALK, customColor := TFT_GREEN\<rparr>
      else
        s\<lparr>isBusy := False,
          customText := strncpy31 (ctext (customStatuses s ! (statusIndex s - 2))),
          customColor := ccolor (customStatuses s ! (statusIndex s - 2))\<rparr>)"

text \<open>\<^verbatim>\<open>esp_deep_sleep_start\<close> does not return.\<close>

datatype 'a outcome = DeepSleep | Continue 'a

text \<open>
  The second half of \<^verbatim>\<open>handleButtonPress\<close>, the main button. \<open>buttonPressed\<close> is
  \<^verbatim>\<open>!digitalRead(BUTTON_PIN)\<close>, \<open>now\<close> the value of \<^verbatim>\<open>millis()\<close>.
\<close>

definition mainButton :: "bool \<Rightarrow> u32 \<Rightarrow> dev \<Rightarrow> dev outcome" where
  "mainButton buttonPressed now s =
     (if buttonPressed \<and> \<not> buttonWasPressed s then
        Continue (s\<lparr>buttonPressTime := now, buttonWasPressed := buttonPressed\<rparr>)
      else if \<not> buttonPressed \<and> buttonWasPressed s then
        (let pressDuration = now - buttonPressTime s
         in if pressDuration \<ge> longPressDuration then DeepSleep
            else if pressDuration > 30 \<and> now - lastPress s > 300 then
              (if gameOfLifeRunning s then
                 Continue (s\<lparr>gameOfLifeRunning := False, lastPress := now,
                             buttonPressTime := 0, buttonWasPressed := buttonPressed\<rparr>)
               else
                 (let s1 = s\<lparr>statusIndex := fst (cycle_loop (customStatuses s) (statusIndex s) 0)\<rparr>;
                      s2 = applyStatusIndex s1;
                      s3 = saveStatus (s2\<lparr>textX := int screenWidth\<rparr>)
                  in Continue (s3\<lparr>lastPress := now, buttonPressTime := 0,
                                  buttonWasPressed := buttonPressed\<rparr>)))
            else Continue (s\<lparr>buttonPressTime := 0, buttonWasPressed := buttonPressed\<rparr>))
      else Continue (s\<lparr>buttonWasPressed := buttonPressed\<rparr>))"

text \<open>
  \<^verbatim>\<open>handleButtonPress\<close>. \<open>anglePressed\<close> is \<^verbatim>\<open>!digitalRead(ANGLE_BUTTON_PIN)\<close>;
  \<open>nowR\<close> and \<open>now\<close> are the two readings of \<^verbatim>\<open>millis()\<close>.
\<close>

definition handleButtonPress :: "bool \<Rightarrow> bool \<Rightarrow> u32 \<Rightarrow> u32 \<Rightarrow> dev \<Rightarrow> dev outcome" where
  "handleButtonPress anglePressed buttonPressed nowR now s =
     (if anglePressed \<and> nowR - lastPress s > 300 then
        (if gameOfLifeRunning s then Continue (s\<lparr>gameOfLifeRunning := False\<rparr>)
         else (let newRotation = (if lastRotation s = 1 then 3 else 1)
               in mainButton buttonPressed now
                    (s\<lparr>tftRotation := newRotation,
                       prefs := prefs s @ [(''screenRotation'', PInt newRotation)],
                       lastRotation := newRotation, lastPress := nowR\<rparr>)))
      else mainButton buttonPressed now s)"

text \<open>
  One round of the loop of \<^verbatim>\<open>updateDisplay\<close> on the status state. While the
  animation runs the round ends after the buttons and the frame of the automaton,
  which works on its own state; otherwise the save check follows.
\<close>

definition updateDisplay_round :: "bool \<Rightarrow> bool \<Rightarrow> u32 \<Rightarrow> u32 \<Rightarrow> u32 \<Rightarrow> dev \<Rightarrow> dev outcome" where
  "updateDisplay_round anglePressed buttonPressed nowR now currentMillis s =
     (if gameOfLifeRunning s then handleButtonPress anglePressed buttonPressed nowR now s
      else (case handleButtonPress anglePressed buttonPressed nowR now s of
              DeepSleep \<Rightarrow> DeepSleep
            | Continue s1 \<Rightarrow> Continue (saveCheck currentMillis s1)))"

text \<open>The state after \<^verbatim>\<open>setup\<close> with empty preferences, custom slots as given.\<close>

definition dev_boot :: "CustomStatus list \<Rightarrow> dev" where
  "dev_boot slots = \<lparr>isBusy = True, customText = ''BUSY'', customColor = TFT_RED,
     customStatuses = slots, showBattery = True, showCornerInfo = 1,
     needSaveStatus = False, gameOfLifeRunning = False, textX = int screenWidth,
     buttonPressTime = 0, lastRotation = 3, lastPress = 0, buttonWasPressed = False,
     statusIndex = 0, lastSaveCheck = 0, tftRotation = 3, prefs = []\<rparr>"

section \<open>Notions of the specification and of the proofs\<close>

text \<open>
  A status index can be selected when it is a preset (0 or 1) or a custom slot with
  a text.
\<close>

definition selectable :: "CustomStatus list \<Rightarrow> nat \<Rightarrow> bool" where
  "selectable slots i = (i < 2 \<or> (i < 5 \<and> ctext (slots ! (i - 2)) \<noteq> []))"

text \<open>
  What the probe loop has to deliver from index \<open>idx\<close>: the pair of the new index
  and the number of probes.
\<close>

definition cycle_ok :: "CustomStatus list \<Rightarrow> nat \<Rightarrow> nat \<times> nat \<Rightarrow> bool" where
  "cycle_ok slots idx res =
     (1 \<le> snd res \<and> snd res \<le> 4 \<and> fst res = (idx + snd res) mod 5 \<and> selectable slots (fst res)
      \<and> list_all (\<lambda>k. \<not> selectable slots ((idx + k) mod 5)) [1..<snd res])"

text \<open>The fields that a flush writes, with their keys.\<close>

definition persisted_fields :: "dev \<Rightarrow> (string \<times> pval) list" where
  "persisted_fields s =
     [(''isBusy'', PBool (isBusy s)), (''customText'', PString (customText s)),
      (''customColor'', PUInt (customColor s)), (''showBattery'', PBool (showBattery s)),
      (''showCornerInfo'', PInt (showCornerInfo s)),
      (''customText1'', PString (ctext (customStatuses s ! 0))),
      (''customColor1'', PUInt (ccolor (customStatuses s ! 0))),
      (''customText2'', PString (ctext (customStatuses s ! 1))),
      (''customColor2'', PUInt (ccolor (customStatuses s ! 1))),
      (''customText3'', PString (ctext (customStatuses s ! 2))),
      (''customColor3'', PUInt (ccolor (customStatuses s ! 2)))]"

text \<open>A sequence of set-custom-text commands, each given by its text and colour arguments.\<close>

definition mutations :: "lib \<Rightarrow> (string \<times> string) list \<Rightarrow> dev \<Rightarrow> dev" where
  "mutations l ms s = fold (\<lambda>m. serverSetCustom l (fst m) (snd m)) ms s"

text \<open>
  The state of the inner loop of the assignment after \<open>k\<close> cells, for the start
  value \<open>D\<close> of \<^verbatim>\<open>minDist\<close>: nothing found yet, or the first nearest free cell.
\<close>

definition near_inv :: "bool list \<Rightarrow> point list \<Rightarrow> point \<Rightarrow> int \<Rightarrow> nat \<Rightarrow> int \<times> int \<Rightarrow> bool" where
  "near_inv used cells t D k st =
     ((snd st = -1 \<and> fst st = D \<and> (\<forall>j<k. \<not> used ! j \<longrightarrow> D \<le> sqdist (cells ! j) t))
      \<or> (0 \<le> snd st \<and> nat (snd st) < k \<and> \<not> used ! nat (snd st)
          \<and> fst st = sqdist (cells ! nat (snd st)) t \<and> fst st < D
          \<and> (\<forall>j<k. \<not> used ! j \<longrightarrow> fst st \<le> sqdist (cells ! j) t)
          \<and> (\<forall>j<nat (snd st). \<not> used ! j \<longrightarrow> fst st < sqdist (cells ! j) t)))"

text \<open>The state of the outer loop after \<open>k\<close> target points.\<close>

definition assign_inv :: "point list \<Rightarrow> point list \<Rightarrow> nat \<Rightarrow> int list \<times> bool list \<Rightarrow> bool" where
  "assign_inv cells targets k st =
     (length (fst st) = length targets \<and> length (snd st) = length cells
      \<and> (\<forall>i<k. 0 \<le> fst st ! i \<and> nat (fst st ! i) < length cells)
      \<and> distinct (take k (fst st))
      \<and> (\<forall>j<length cells. snd st ! j \<longleftrightarrow> int j \<in> set (take k (fst st)))
      \<and> (\<forall>i<k. \<forall>j<length cells. int j \<notin> set (take i (fst st)) \<longrightarrow>
             sqdist (cells ! nat (fst st ! i)) (targets ! i) \<le> sqdist (cells ! j) (targets ! i)
             \<and> (j < nat (fst st ! i) \<longrightarrow>
                  sqdist (cells ! nat (fst st ! i)) (targets ! i) < sqdist (cells ! j) (targets ! i))))"

section \<open>Concrete inputs\<close>

text \<open>
  Values of \<^verbatim>\<open>rand()\<close> that give a blinker in the top left corner of the 28 by 53
  grid (cells 0, 1 and 2 of row 1), and values that leave every cell dead.
\<close>

definition blinker_rnd :: "nat \<Rightarrow> nat" where
  "blinker_rnd k = (if k = 53 \<or> k = 54 \<or> k = 55 then 0 else 1)"

definition dead_rnd :: "nat \<Rightarrow> nat" where
  "dead_rnd k = 1"

text \<open>Values of \<^verbatim>\<open>rand()\<close> that leave one live cell, the cell in the top left corner.\<close>

definition lone_rnd :: "nat \<Rightarrow> nat" where
  "lone_rnd k = (if k = 0 then 0 else 1)"

text \<open>The custom slots of the example: only the second one has a text.\<close>

definition lunch_slots :: "CustomStatus list" where
  "lunch_slots = [\<lparr>ctext = [], ccolor = TFT_BLUE\<rparr>, \<lparr>ctext = ''LUNCH'', ccolor = TFT_BLUE\<rparr>,
     \<lparr>ctext = [], ccolor = TFT_BLUE\<rparr>]"

text \<open>Library functions that read every string as 0.\<close>

definition lib0 :: lib where
  "lib0 = \<lparr>strtol16 = (\<lambda>t. 0), toInt = (\<lambda>t. 0)\<rparr>"

text \<open>The main button held down since time \<open>t\<close>.\<close>

definition held_since :: "u32 \<Rightarrow> dev \<Rightarrow> dev" where
  "held_since t s = s\<lparr>buttonPressTime := t, buttonWasPressed := True\<rparr>"

text \<open>
  A press of the main button at time \<open>t\<close> and its release 100 ms later, as two
  calls of \<^verbatim>\<open>handleButtonPress\<close>; a sequence of such presses; and what the display
  then shows.
\<close>

definition press_release :: "u32 \<Rightarrow> dev \<Rightarrow> dev outcome" where
  "press_release t s =
     (case handleButtonPress False True t t s of
        DeepSleep \<Rightarrow> DeepSleep
      | Continue s1 \<Rightarrow> handleButtonPress False False (t + 100) (t + 100) s1)"

fun presses :: "u32 list \<Rightarrow> dev \<Rightarrow> dev outcome" where
  "presses [] s = Continue s"
| "presses (t # ts) s =
     (case press_release t s of DeepSleep \<Rightarrow> DeepSleep | Continue s1 \<Rightarrow> presses ts s1)"

fun shown :: "dev outcome \<Rightarrow> (nat \<times> string) option" where
  "shown DeepSleep = None"
| "shown (Continue s) = Some (statusIndex s, customText s)"

text \<open>Four outline pixels.\<close>

definition outline4 :: "point list" where
  "outline4 = [(100, 80), (101, 80), (102, 80), (103, 80)]"

chapter \<open>Properties\<close>

text \<open>
  The recursive equations of the two loops are applied by hand where needed.
\<close>

declare dup_loop.simps [simp del]
declare cycle_loop.simps [simp del]

section \<open>The alpha fade\<close>

text \<open>
  For a live cell the update is an addition of 32 modulo 256 unless the alpha is
  exactly 255: the clamp of line 337 can never fire on a \<^verbatim>\<open>uint8_t\<close>.
\<close>

lemma alpha_update_alive:
  "c \<noteq> 0 \<Longrightarrow> alpha_update c a = (if a = 255 then 255 else a + 32)"
proof -
  assume c: "c \<noteq> 0"
  have le: "uint a \<le> 255" using uint_bounded [of a] by simp
  have eq: "uint a = 255 \<longleftrightarrow> a = 255"
    by (simp add: word_uint_eq_iff)
  have le2: "\<not> uint (a + 32) > 255" using uint_bounded [of "a + 32"] by simp
  show ?thesis
    using c le eq le2 by (auto simp: alpha_update_def Let_def)
qed

lemma alpha_update_dead:
  "alpha_update 0 a = (if uint a > 32 then a - 32 else 0)"
proof -
  have "0 \<le> uint a" by simp
  then have "\<not> 0 < uint a \<Longrightarrow> uint a = 0" by arith
  then show ?thesis
    by (auto simp: alpha_update_def word_uint_eq_iff)
qed

text \<open>
  The alpha grid starts at 0, so every alpha is a multiple of 32 and none is ever
  255, whatever the history of the cell.
\<close>

lemma mult32_ne_255: "(32 * k :: u8) \<noteq> 255"
proof
  assume "32 * k = (255 :: u8)"
  then have "unat (32 * k :: u8) = 255" by simp
  then have "(32 * unat k) mod (32 * 8) = 255" by (simp add: unat_word_ariths)
  then have "32 * (unat k mod 8) = 255" by (simp only: mult_mod_right)
  then show False by arith
qed

lemma alpha_stays_multiple:
  "\<exists>k. a = 32 * k \<Longrightarrow> \<exists>k. alpha_update c a = 32 * k"
proof -
  assume "\<exists>k. a = 32 * k"
  then obtain k where k: "a = 32 * k" by blast
  show ?thesis
  proof (cases "c = 0")
    case False
    have "a + 32 = 32 * (k + 1)" by (simp add: k distrib_left)
    then show ?thesis using False mult32_ne_255 [of k] k
      by (metis alpha_update_alive)
  next
    case True
    have "a - 32 = 32 * (k - 1)" by (simp add: k right_diff_distrib)
    moreover have "(0 :: u8) = 32 * 0" by simp
    ultimately show ?thesis using True
      by (metis alpha_update_dead)
  qed
qed

lemma alpha_never_full:
  "\<exists>k. fold alpha_update cells 0 = 32 * k"
proof -
  have "(\<exists>k. a = 32 * k) \<Longrightarrow> \<exists>k. fold alpha_update cells a = 32 * k" for a
  proof (induction cells arbitrary: a)
    case Nil
    then show ?case by simp
  next
    case (Cons c cells)
    from alpha_stays_multiple [OF Cons.prems, of c] show ?case
      by (simp add: Cons.IH)
  qed
  moreover have "\<exists>k. (0 :: u8) = 32 * k" by (rule exI [of _ 0]) simp
  ultimately show ?thesis by blast
qed

lemma alpha_never_255: "fold alpha_update cells 0 \<noteq> 255"
  using alpha_never_full [of cells] mult32_ne_255 by metis


text \<open>
  C6. The claim: on every tick the alpha of a cell moves by 32 towards 255 if the
  cell is alive and towards 0 if it is dead and stays within 0 to 255; for a cell
  that stays alive the alpha never decreases and reaches and holds 255. The code
  at a live cell with alpha 224: the sum 256 is stored in a \<^verbatim>\<open>uint8_t\<close> as 0, so
  the alpha of a cell that stays alive runs 0, 32, ..., 224, 0, 32, ... and never
  reaches 255.
\<close>

theorem alpha_fade_wraps_for_live_cell:
  "alpha_update 1 224 = 0 \<and>
   map (alpha_update 1) [0, 32, 64, 96, 128, 160, 192, 224] = [32, 64, 96, 128, 160, 192, 224, 0]"
  by (simp add: alpha_update_def Let_def)

section \<open>The transition\<close>

lemma alpha_phase_grid [simp]:
  "golGrid (alpha_phase s) = golGrid s" "golRows (alpha_phase s) = golRows s"
  "golCols (alpha_phase s) = golCols s" "hashHistory (alpha_phase s) = hashHistory s"
  "hashIdx (alpha_phase s) = hashIdx s"
  by (simp_all add: alpha_phase_def Let_def)

lemma transition_phase_dims [simp]:
  "golRows (transition_phase s) = golRows s" "golCols (transition_phase s) = golCols s"
  "hashHistory (transition_phase s) = hashHistory s" "hashIdx (transition_phase s) = hashIdx s"
  by (simp_all add: transition_phase_def Let_def)

lemma transition_cell:
  "y < golRows s \<Longrightarrow> x < golCols s \<Longrightarrow>
   golGrid (transition_phase s) ! y ! x = next_cell (golGrid s) (golRows s) (golCols s) y x"
  by (simp add: transition_phase_def Let_def)

lemma init_dims [simp]:
  "golRows (initGameOfLife rnd s) = 28" "golCols (initGameOfLife rnd s) = 53"
  by (simp_all add: initGameOfLife_def Let_def screenWidth_def screenHeight_def golCellSize_def)

lemma init_cell:
  "y < 28 \<Longrightarrow> x < 53 \<Longrightarrow>
   golGrid (initGameOfLife rnd s) ! y ! x = (if rnd (y * 53 + x) mod 4 = 0 then 1 else 0)"
  by (simp add: initGameOfLife_def Let_def screenWidth_def screenHeight_def golCellSize_def)

lemma wrap_idx_less: "0 < n \<Longrightarrow> wrap_idx i d n < n"
  by (simp add: wrap_idx_def nat_less_iff)

lemma wrap_idx_cases:
  assumes "i < n"
  shows "wrap_idx i (-1) n = (i + n - 1) mod n" "wrap_idx i 0 n = i" "wrap_idx i 1 n = (i + 1) mod n"
proof -
  have "int i + - 1 + int n = int (i + n - 1)" using assms by simp
  then have "(int i + - 1 + int n) mod int n = int ((i + n - 1) mod n)"
    by (simp only: zmod_int)
  then show "wrap_idx i (-1) n = (i + n - 1) mod n"
    by (simp add: wrap_idx_def)
  show "wrap_idx i 0 n = i" using assms by (simp add: wrap_idx_def)
  have "(int i + 1 + int n) mod int n = int ((i + 1) mod n)"
    by (simp add: zmod_int add.commute)
  then show "wrap_idx i 1 n = (i + 1) mod n"
    by (simp add: wrap_idx_def)
qed

text \<open>Every grid that the sketch builds has the shape \<open>grid_ok\<close>.\<close>

lemma init_grid_ok:
  "grid_ok (golGrid (initGameOfLife rnd s)) (golRows (initGameOfLife rnd s))
     (golCols (initGameOfLife rnd s))"
  by (simp add: grid_ok_def list_all_iff)
     (auto simp: initGameOfLife_def Let_def screenWidth_def screenHeight_def golCellSize_def)

lemma transition_grid_ok:
  "grid_ok (golGrid (transition_phase s)) (golRows s) (golCols s)"
  by (auto simp: grid_ok_def list_all_iff transition_phase_def Let_def next_cell_def)

lemma grid_ok_cell:
  "grid_ok g rows cols \<Longrightarrow> r < rows \<Longrightarrow> c < cols \<Longrightarrow> g ! r ! c = 0 \<or> g ! r ! c = 1"
  by (auto simp: grid_ok_def list_all_length)

lemma uint_cell:
  "grid_ok g rows cols \<Longrightarrow> r < rows \<Longrightarrow> c < cols \<Longrightarrow>
   uint (g ! r ! c) = of_bool (alive g r c)"
  using grid_ok_cell [of g rows cols r c] by (auto simp: alive_def)

lemma length_filter_of_bool:
  "int (length (filter P xs)) = sum_list (map (\<lambda>p. of_bool (P p)) xs)"
  by (induction xs) simp_all

text \<open>The sum of the loop over \<^verbatim>\<open>dy\<close> and \<^verbatim>\<open>dx\<close> is the live count on the torus.\<close>

lemma live_neighbours_count:
  assumes ok: "grid_ok g rows cols" and y: "y < rows" and x: "x < cols"
  shows "live_neighbours g rows cols y x = int (live_count g rows cols y x)"
proof -
  have r: "0 < rows" and c: "0 < cols" using y x by auto
  have u: "uint (g ! (a mod rows) ! (b mod cols)) = of_bool (alive g (a mod rows) (b mod cols))" for a b
    using uint_cell [OF ok, of "a mod rows" "b mod cols"] r c by simp
  have u1: "uint (g ! y ! (b mod cols)) = of_bool (alive g y (b mod cols))" for b
    using uint_cell [OF ok y, of "b mod cols"] c by simp
  have u2: "uint (g ! (a mod rows) ! x) = of_bool (alive g (a mod rows) x)" for a
    using uint_cell [OF ok _ x, of "a mod rows"] r by simp
  show ?thesis
    unfolding live_count_def length_filter_of_bool
    by (simp add: live_neighbours_def neighbour_offsets_def torus_neighbours_def
        wrap_idx_cases [OF y] wrap_idx_cases [OF x] u u1 u2 Let_def
        del: of_bool_eq_iff split del: if_split)
qed

lemma next_cell_rule:
  assumes ok: "grid_ok g rows cols" and y: "y < rows" and x: "x < cols"
  shows "next_cell g rows cols y x =
     (if (alive g y x \<and> (live_count g rows cols y x = 2 \<or> live_count g rows cols y x = 3))
         \<or> (\<not> alive g y x \<and> live_count g rows cols y x = 3) then 1 else 0)"
  by (auto simp add: next_cell_def Let_def live_neighbours_count [OF assms] alive_def)

text \<open>
  C1. For every grid of the sketch (rows of equal length, cells 0 or 1) and every
  cell \<open>(y, x)\<close> of it, the grid after the transition of one frame has the cell
  alive exactly if it was alive with 2 or 3 live neighbours on the torus, or dead
  with exactly 3. In particular a cell with exactly 3 live neighbours is alive in
  the next generation whatever its state, and a live cell with 0, 1, or 4 and more
  live neighbours is dead in the next generation.
\<close>

theorem transition_rule:
  assumes "grid_ok (golGrid s) (golRows s) (golCols s)" and "y < golRows s" and "x < golCols s"
  shows "(alive (golGrid (transition_phase (alpha_phase s))) y x \<longleftrightarrow>
            (alive (golGrid s) y x \<and>
              (live_count (golGrid s) (golRows s) (golCols s) y x = 2 \<or>
               live_count (golGrid s) (golRows s) (golCols s) y x = 3))
          \<or> (\<not> alive (golGrid s) y x \<and> live_count (golGrid s) (golRows s) (golCols s) y x = 3))
       \<and> (live_count (golGrid s) (golRows s) (golCols s) y x = 3 \<longrightarrow>
            alive (golGrid (transition_phase (alpha_phase s))) y x)
       \<and> (alive (golGrid s) y x \<and>
            (live_count (golGrid s) (golRows s) (golCols s) y x < 2 \<or>
             4 \<le> live_count (golGrid s) (golRows s) (golCols s) y x) \<longrightarrow>
            \<not> alive (golGrid (transition_phase (alpha_phase s))) y x)"
proof -
  have "golGrid (transition_phase (alpha_phase s)) ! y ! x
        = next_cell (golGrid s) (golRows s) (golCols s) y x"
    using assms transition_cell [of y "alpha_phase s" x] by simp
  then show ?thesis
    using next_cell_rule [OF assms]
    by (auto simp: alive_def [of "golGrid (transition_phase (alpha_phase s))"])
qed

theorem transition_rule_witness:
  "grid_ok (golGrid (initGameOfLife blinker_rnd gol_boot))
     (golRows (initGameOfLife blinker_rnd gol_boot)) (golCols (initGameOfLife blinker_rnd gol_boot))
   \<and> 0 < golRows (initGameOfLife blinker_rnd gol_boot)
   \<and> 1 < golCols (initGameOfLife blinker_rnd gol_boot)
   \<and> live_count (golGrid (initGameOfLife blinker_rnd gol_boot)) 28 53 0 1 = 3
   \<and> \<not> alive (golGrid (initGameOfLife blinker_rnd gol_boot)) 0 1
   \<and> alive (golGrid (transition_phase (alpha_phase (initGameOfLife blinker_rnd gol_boot)))) 0 1"
  using transition_rule [of "initGameOfLife blinker_rnd gol_boot" 0 1]
    init_grid_ok [of blinker_rnd gol_boot]
  by (simp add: live_count_def torus_neighbours_def alive_def init_cell blinker_rnd_def)

section \<open>The reset at the end of a frame\<close>

lemma all_dead_iff:
  "all_dead g rows cols \<longleftrightarrow> (\<forall>y<rows. \<forall>x<cols. g ! y ! x = 0)"
  by (auto simp: all_dead_def list_all_iff)

lemma collect_live_all_dead:
  "all_dead g rows cols \<Longrightarrow> collect_live g rows cols = []"
  by (auto simp: all_dead_def collect_live_def list_all_iff)

lemma dup_loop_no_live: "0 < n \<Longrightarrow> dup_loop [] [] n = Inl IntegerDivideByZero"
  by (subst dup_loop.simps) simp

text \<open>
  With no live cell and at least one target point the morph divides by zero.
\<close>

lemma animate_all_dead:
  "targets \<noteq> [] \<Longrightarrow> all_dead (golGrid s) (golRows s) (golCols s) \<Longrightarrow>
   animateToBusyBee targets shuffle s = Inl IntegerDivideByZero"
  by (simp add: animateToBusyBee_def collect_live_all_dead reconcile_def dup_loop_no_live)

lemma check_phase_all_dead:
  "targets \<noteq> [] \<Longrightarrow> all_dead (golGrid s) (golRows s) (golCols s) \<Longrightarrow>
   check_phase targets shuffle rnd s = Inl IntegerDivideByZero"
  by (simp add: check_phase_def Let_def animate_all_dead)

lemma live_neighbours_all_dead:
  assumes "all_dead g rows cols" "0 < rows" "0 < cols"
  shows "live_neighbours g rows cols y x = 0"
proof -
  have "g ! wrap_idx y dy rows ! wrap_idx x dx cols = 0" for dy dx
    using assms by (simp add: all_dead_iff wrap_idx_less)
  then show ?thesis
    by (simp add: live_neighbours_def neighbour_offsets_def)
qed

lemma transition_all_dead:
  assumes "all_dead (golGrid s) (golRows s) (golCols s)"
  shows "all_dead (golGrid (transition_phase s)) (golRows s) (golCols s)"
proof -
  have "next_cell (golGrid s) (golRows s) (golCols s) y x = 0"
    if "y < golRows s" "x < golCols s" for y x
    using assms that live_neighbours_all_dead [OF assms, of y x]
    by (simp add: next_cell_def all_dead_iff)
  then show ?thesis
    by (simp add: all_dead_iff transition_cell)
qed

text \<open>
  A frame whose new generation is entirely dead ends in the division by zero
  whenever the product name has an outline pixel.
\<close>

lemma step_all_dead:
  "targets \<noteq> [] \<Longrightarrow> all_dead (golGrid s) (golRows s) (golCols s) \<Longrightarrow>
   stepGameOfLife targets shuffle rnd s = Inl IntegerDivideByZero"
  using transition_all_dead [of "alpha_phase s"]
  by (simp add: stepGameOfLife_def check_phase_all_dead)

lemma init_all_dead:
  "all_dead (golGrid (initGameOfLife dead_rnd s)) 28 53"
  by (simp add: all_dead_iff init_cell dead_rnd_def)

lemma step_dies_out:
  "targets \<noteq> [] \<Longrightarrow> all_dead (golGrid (transition_phase (alpha_phase s))) (golRows s) (golCols s) \<Longrightarrow>
   stepGameOfLife targets shuffle rnd s = Inl IntegerDivideByZero"
  using check_phase_all_dead [of targets "transition_phase (alpha_phase s)" shuffle rnd]
  by (simp add: stepGameOfLife_def)

text \<open>
  A lone live cell has no live neighbour and every dead cell has at most one, so the
  next generation is entirely dead. On a torus of at least 3 by 3 cells the eight
  neighbours of a cell are eight different cells, none of them the cell itself.
\<close>

lemma up_idx: "i < n \<Longrightarrow> (i + n - 1) mod n = (if i = 0 then n - 1 else i - 1)" for i n :: nat
proof (cases "i = 0")
  case True
  assume "i < n"
  then have "n - 1 < n" by arith
  then have "(n - 1) mod n = n - 1" by (rule mod_less)
  with True show ?thesis by simp
next
  case False
  assume "i < n"
  have "i + n - 1 = (i - 1) + n" using False by simp
  then have "(i + n - 1) mod n = (i - 1) mod n" by (simp only: mod_add_self2)
  moreover have "(i - 1) mod n = i - 1" using \<open>i < n\<close> by (intro mod_less) arith
  ultimately show ?thesis using False by simp
qed

lemma down_idx: "i < n \<Longrightarrow> (i + 1) mod n = (if i + 1 = n then 0 else i + 1)" for i n :: nat
proof (cases "i + 1 = n")
  case True
  then have "(i + 1) mod n = n mod n" by simp
  with True show ?thesis by simp
next
  case False
  assume "i < n"
  with False have "i + 1 < n" by arith
  then have "(i + 1) mod n = i + 1" by (rule mod_less)
  with False show ?thesis by (simp only: if_False)
qed

lemma ring3:
  fixes i n :: nat
  assumes "i < n" "3 \<le> n"
  shows "(i + n - 1) mod n \<noteq> i" "(i + 1) mod n \<noteq> i" "(i + n - 1) mod n \<noteq> (i + 1) mod n"
  unfolding up_idx [OF assms(1)] down_idx [OF assms(1)]
  using assms by (auto split: if_splits)

lemma torus_neighbours_distinct:
  assumes y: "y < rows" and x: "x < cols" and r: "3 \<le> rows" and c: "3 \<le> cols"
  shows "distinct (torus_neighbours rows cols y x) \<and> (y, x) \<notin> set (torus_neighbours rows cols y x)"
proof -
  define up dn lf rt where "up = (y + rows - 1) mod rows" and "dn = (y + 1) mod rows"
    and "lf = (x + cols - 1) mod cols" and "rt = (x + 1) mod cols"
  have n: "torus_neighbours rows cols y x
      = [(up, lf), (up, x), (up, rt), (y, lf), (y, rt), (dn, lf), (dn, x), (dn, rt)]"
    by (simp add: torus_neighbours_def Let_def up_def dn_def lf_def rt_def)
  have "up \<noteq> y" "dn \<noteq> y" "up \<noteq> dn" "lf \<noteq> x" "rt \<noteq> x" "lf \<noteq> rt"
    unfolding up_def dn_def lf_def rt_def using ring3 [OF y r] ring3 [OF x c] by blast+
  then show ?thesis unfolding n by auto
qed

lemma torus_neighbours_in_range:
  assumes y: "y < rows" and x: "x < cols"
  shows "\<forall>p\<in>set (torus_neighbours rows cols y x). fst p < rows \<and> snd p < cols"
  using assms by (simp add: torus_neighbours_def Let_def)

lemma count_distinct:
  "distinct xs \<Longrightarrow> length (filter (\<lambda>p. p = z) xs) = (if z \<in> set xs then 1 else 0)"
  by (induction xs) auto

lemma lone_alive:
  "r < 28 \<Longrightarrow> c < 53 \<Longrightarrow>
   alive (golGrid (initGameOfLife lone_rnd s)) r c \<longleftrightarrow> (r, c) = (0, 0)"
  by (simp add: alive_def init_cell lone_rnd_def)

lemma lone_live_count:
  assumes "y < 28" "x < 53"
  shows "live_count (golGrid (initGameOfLife lone_rnd s)) 28 53 y x
       = (if (0, 0) \<in> set (torus_neighbours 28 53 y x) then 1 else 0)"
proof -
  have "filter (\<lambda>(r, c). alive (golGrid (initGameOfLife lone_rnd s)) r c) (torus_neighbours 28 53 y x)
      = filter (\<lambda>p. p = (0, 0)) (torus_neighbours 28 53 y x)"
  proof (rule filter_cong [OF refl])
    fix p assume "p \<in> set (torus_neighbours 28 53 y x)"
    then have "fst p < 28 \<and> snd p < 53"
      using torus_neighbours_in_range [OF assms] by blast
    then show "(case p of (r, c) \<Rightarrow> alive (golGrid (initGameOfLife lone_rnd s)) r c) = (p = (0, 0))"
      using lone_alive [of "fst p" "snd p" s] by (cases p) simp
  qed
  moreover have "distinct (torus_neighbours 28 53 y x)"
    using torus_neighbours_distinct [OF assms] by simp
  ultimately show ?thesis
    using count_distinct [of "torus_neighbours 28 53 y x" "(0, 0)"]
    by (simp add: live_count_def)
qed

lemma lone_cell_dies:
  "all_dead (golGrid (transition_phase (alpha_phase (initGameOfLife lone_rnd s)))) 28 53"
proof -
  let ?s = "initGameOfLife lone_rnd s"
  have ok: "grid_ok (golGrid ?s) 28 53" using init_grid_ok [of lone_rnd s] by simp
  have "next_cell (golGrid ?s) 28 53 y x = 0" if yx: "y < 28" "x < 53" for y x
  proof (cases "(y, x) = (0, 0)")
    case True
    then have "live_count (golGrid ?s) 28 53 y x = 0"
      using lone_live_count [OF yx, of s] torus_neighbours_distinct [OF yx] by simp
    then show ?thesis using next_cell_rule [OF ok yx] by simp
  next
    case False
    then have "\<not> alive (golGrid ?s) y x" using lone_alive [OF yx, of s] by simp
    moreover have "live_count (golGrid ?s) 28 53 y x \<le> 1"
      using lone_live_count [OF yx, of s] by simp
    ultimately show ?thesis using next_cell_rule [OF ok yx] by simp
  qed
  then show ?thesis
    using transition_cell [of _ "alpha_phase ?s"] by (simp add: all_dead_iff)
qed

text \<open>
  C2. The claim: if the fingerprint of the new generation equals one of the last
  eight recorded fingerprints, or the new generation is entirely dead, the reset
  (morph, then a new grid) happens once at that step and the eight history slots
  are cleared; otherwise there is no reset and the fingerprint is written to the
  ring buffer. The code on the grid with one live cell, with one target point: the
  cell dies, the new generation is entirely dead, and the frame ends in the
  division by zero of the morph, before the new grid and before the clearing of
  the history.
\<close>

theorem lone_cell_frame_traps:
  "\<not> all_dead (golGrid (initGameOfLife lone_rnd gol_boot)) 28 53
   \<and> stepGameOfLife [(100, 80)] id blinker_rnd (initGameOfLife lone_rnd gol_boot)
       = Inl IntegerDivideByZero"
proof -
  have "golGrid (initGameOfLife lone_rnd gol_boot) ! 0 ! 0 \<noteq> 0"
    by (simp add: init_cell lone_rnd_def)
  then have "\<not> all_dead (golGrid (initGameOfLife lone_rnd gol_boot)) 28 53"
    unfolding all_dead_iff by (metis zero_less_numeral)
  moreover have "stepGameOfLife [(100, 80)] id blinker_rnd (initGameOfLife lone_rnd gol_boot)
       = Inl IntegerDivideByZero"
    using step_dies_out [of "[(100, 80)]" "initGameOfLife lone_rnd gol_boot" id blinker_rnd]
      lone_cell_dies [of gol_boot]
    by simp
  ultimately show ?thesis by simp
qed

text \<open>
  C10. The claim: at every grid state at which the morph is entered, the all-dead
  state included, the duplication of sources never takes a remainder by zero; the
  morph is only entered with a live cell. The code on the all-dead grid with one
  target point: \<^verbatim>\<open>liveCells\<close> is empty and the index
  \<^verbatim>\<open>usedCells.size() % liveCells.size()\<close> is a remainder by zero.
\<close>

theorem morph_divides_by_zero:
  "collect_live (golGrid (initGameOfLife dead_rnd gol_boot)) 28 53 = [] \<and>
   animateToBusyBee [(100, 80)] id (initGameOfLife dead_rnd gol_boot) = Inl IntegerDivideByZero"
  using animate_all_dead [of "[(100, 80)]" "initGameOfLife dead_rnd gol_boot" id]
    init_all_dead [of gol_boot] collect_live_all_dead [of "golGrid (initGameOfLife dead_rnd gol_boot)" 28 53]
  by simp

section \<open>The morph animator\<close>

text \<open>
  With at least one live cell the duplication loop returns: the cells it was given,
  followed by the live cells repeated in turn, up to \<open>n\<close> cells.
\<close>

lemma dup_loop_spec:
  assumes "liveCells \<noteq> []"
  shows "\<exists>u. dup_loop liveCells usedCells n = Inr u \<and> length u = max n (length usedCells)
           \<and> take (length usedCells) u = usedCells
           \<and> (\<forall>k. length usedCells \<le> k \<and> k < length u \<longrightarrow> u ! k = liveCells ! (k mod length liveCells))"
  using assms
proof (induction liveCells usedCells n rule: dup_loop.induct)
  case (1 liveCells usedCells n)
  show ?case
  proof (cases "length usedCells < n")
    case False
    then show ?thesis by (subst dup_loop.simps) (auto simp: max_def)
  next
    case True
    let ?U = "usedCells @ [liveCells ! (length usedCells mod length liveCells)]"
    from "1.prems" have ne: "length liveCells \<noteq> 0" by simp
    from "1.IH" [OF True ne "1.prems"] obtain u where
      u: "dup_loop liveCells ?U n = Inr u" "length u = max n (length ?U)"
         "take (length ?U) u = ?U"
         "\<forall>k. length ?U \<le> k \<and> k < length u \<longrightarrow> u ! k = liveCells ! (k mod length liveCells)"
      by blast
    have eq: "dup_loop liveCells usedCells n = Inr u"
      using True ne u(1) by (subst dup_loop.simps) simp
    have len: "length u = max n (length usedCells)" using u(2) True by (simp add: max_def)
    have tk: "take (length usedCells) u = usedCells"
    proof -
      have "take (length usedCells) (take (length ?U) u) = take (length usedCells) ?U"
        by (simp only: u(3))
      then show ?thesis by simp
    qed
    have at: "u ! length usedCells = liveCells ! (length usedCells mod length liveCells)"
    proof -
      have "take (length ?U) u ! length usedCells = ?U ! length usedCells"
        by (simp only: u(3))
      then show ?thesis by simp
    qed
    have rest: "u ! k = liveCells ! (k mod length liveCells)"
      if "length usedCells \<le> k" "k < length u" for k
    proof (cases "k = length usedCells")
      case True
      then show ?thesis using at by simp
    next
      case False
      with that have "length ?U \<le> k" by simp
      with u(4) that show ?thesis by blast
    qed
    show ?thesis using eq len tk rest by blast
  qed
qed

lemma sq_bound:
  fixes a :: int
  assumes "\<bar>a\<bar> < m" 
  shows "a * a < m * m"
proof -
  have "\<bar>a\<bar> * \<bar>a\<bar> < m * m"
    using assms by (intro mult_strict_mono') auto
  then show ?thesis by (simp add: abs_mult_self_eq)
qed

lemma sqdist_on_screen:
  assumes "on_screen c" "on_screen t"
  shows "sqdist c t < 1000000000"
proof -
  have "\<bar>fst c - fst t\<bar> < 320" "\<bar>snd c - snd t\<bar> < 170"
    using assms by (auto simp: on_screen_def screenWidth_def screenHeight_def)
  then have "(fst c - fst t) * (fst c - fst t) < 320 * 320"
            "(snd c - snd t) * (snd c - snd t) < 170 * 170"
    using sq_bound [of "fst c - fst t" 320] sq_bound [of "snd c - snd t" 170] by auto
  then show ?thesis by (simp add: sqdist_def)
qed

text \<open>The inner loop keeps its invariant, so it finds the first nearest free cell.\<close>

lemma near_inv_step:
  assumes "near_inv used cells t D k st"
  shows "near_inv used cells t D (Suc k) (nearest_step used cells t k st)"
proof (cases "used ! k")
  case True
  then show ?thesis
    using assms by (auto simp: near_inv_def nearest_step_def less_Suc_eq)
next
  case False
  show ?thesis
  proof (cases "sqdist (cells ! k) t < fst st")
    case True
    with False assms show ?thesis
      by (fastforce simp: near_inv_def nearest_step_def Let_def less_Suc_eq)
  next
    case False
    with \<open>\<not> used ! k\<close> assms show ?thesis
      by (auto simp: near_inv_def nearest_step_def Let_def less_Suc_eq)
  qed
qed

lemma near_inv_fold:
  "near_inv used cells t D k (fold (nearest_step used cells t) [0..<k] (D, -1))"
proof (induction k)
  case 0
  show ?case by (simp add: near_inv_def)
next
  case (Suc k)
  then show ?case by (simp add: near_inv_step)
qed

lemma nearest_spec:
  assumes "j0 < length cells" "\<not> used ! j0" "sqdist (cells ! j0) t < 1000000000"
  shows "0 \<le> nearest used cells t \<and> nat (nearest used cells t) < length cells
       \<and> \<not> used ! nat (nearest used cells t)
       \<and> (\<forall>j<length cells. \<not> used ! j \<longrightarrow>
             sqdist (cells ! nat (nearest used cells t)) t \<le> sqdist (cells ! j) t)
       \<and> (\<forall>j<nat (nearest used cells t). \<not> used ! j \<longrightarrow>
             sqdist (cells ! nat (nearest used cells t)) t < sqdist (cells ! j) t)"
  using near_inv_fold [of used cells t 1000000000 "length cells"] assms
  unfolding nearest_def near_inv_def
  by (smt (verit, best))

text \<open>Fewer than \<open>n\<close> used slots leave one of the \<open>n\<close> slots free.\<close>

lemma pigeon:
  assumes "finite A" "card A < n"
  shows "\<exists>j<n. int j \<notin> A"
proof (rule ccontr)
  assume "\<not> (\<exists>j<n. int j \<notin> A)"
  then have "int ` {..<n} \<subseteq> A" by auto
  then have "card (int ` {..<n}) \<le> card A" using assms(1) by (rule card_mono [rotated])
  moreover have "card (int ` {..<n}) = n" by (simp add: card_image)
  ultimately show False using assms(2) by simp
qed

lemma assign_inv_step:
  assumes inv: "assign_inv cells targets k st"
    and k: "k < length targets" and len: "length cells = length targets"
    and cs: "\<forall>c\<in>set cells. on_screen c" and ts: "\<forall>t\<in>set targets. on_screen t"
  shows "assign_inv cells targets (Suc k) (assign_step cells targets k st)"
proof -
  obtain a u where st: "st = (a, u)" by (cases st)
  from inv st have la: "length a = length targets" and lu: "length u = length cells"
    and rng: "\<forall>i<k. 0 \<le> a ! i \<and> nat (a ! i) < length cells"
    and dis: "distinct (take k a)"
    and usd: "\<forall>j<length cells. u ! j \<longleftrightarrow> int j \<in> set (take k a)"
    and mn: "\<forall>i<k. \<forall>j<length cells. int j \<notin> set (take i a) \<longrightarrow>
             sqdist (cells ! nat (a ! i)) (targets ! i) \<le> sqdist (cells ! j) (targets ! i)
             \<and> (j < nat (a ! i) \<longrightarrow>
                  sqdist (cells ! nat (a ! i)) (targets ! i) < sqdist (cells ! j) (targets ! i))"
    by (simp_all add: assign_inv_def)
  have "card (set (take k a)) \<le> k"
    using card_length [of "take k a"] by simp
  then have "card (set (take k a)) < length cells" using k len by simp
  then obtain j0 where j0: "j0 < length cells" "int j0 \<notin> set (take k a)"
    using pigeon [of "set (take k a)" "length cells"] by auto
  then have free: "\<not> u ! j0" using usd by simp
  have "sqdist (cells ! j0) (targets ! k) < 1000000000"
    using sqdist_on_screen [of "cells ! j0" "targets ! k"] cs ts j0(1) k by simp
  define m where "m = nearest u cells (targets ! k)"
  from nearest_spec [OF j0(1) free \<open>sqdist (cells ! j0) (targets ! k) < 1000000000\<close>]
  have m0: "0 \<le> m"
    and m1: "nat m < length cells"
    and m2: "\<not> u ! nat m"
    and m3: "\<forall>j<length cells. \<not> u ! j \<longrightarrow>
             sqdist (cells ! nat m) (targets ! k) \<le> sqdist (cells ! j) (targets ! k)"
    and m4: "\<forall>j<nat m. \<not> u ! j \<longrightarrow>
             sqdist (cells ! nat m) (targets ! k) < sqdist (cells ! j) (targets ! k)"
    unfolding m_def by blast+
  have step: "assign_step cells targets k st = (a[k := m], u[nat m := True])"
    using m0 by (simp add: assign_step_def st m_def [symmetric] Let_def)
  have tk: "take k (a[k := m]) = take k a" by simp
  have tS: "take (Suc k) (a[k := m]) = take k a @ [m]"
    using k la by (simp add: take_Suc_conv_app_nth)
  have mnot: "m \<notin> set (take k a)"
  proof
    assume "m \<in> set (take k a)"
    then have "int (nat m) \<in> set (take k a)" using m0 by simp
    then have "u ! nat m" using usd m1 by simp
    then show False using m2 by simp
  qed
  have A: "\<forall>i<Suc k. 0 \<le> a[k := m] ! i \<and> nat (a[k := m] ! i) < length cells"
    using rng m0 m1 k la by (auto simp: less_Suc_eq nth_list_update)
  have B: "distinct (take (Suc k) (a[k := m]))"
    using dis mnot by (simp add: tS)
  have C: "\<forall>j<length cells. u[nat m := True] ! j \<longleftrightarrow> int j \<in> set (take (Suc k) (a[k := m]))"
  proof (intro allI impI)
    fix j assume j: "j < length cells"
    show "u[nat m := True] ! j \<longleftrightarrow> int j \<in> set (take (Suc k) (a[k := m]))"
    proof (cases "j = nat m")
      case True
      then show ?thesis using m0 m1 lu by (simp add: tS)
    next
      case False
      then have "int j \<noteq> m" by auto
      with False j show ?thesis using usd lu by (simp add: tS)
    qed
  qed
  have D: "\<forall>i<Suc k. \<forall>j<length cells. int j \<notin> set (take i (a[k := m])) \<longrightarrow>
             sqdist (cells ! nat (a[k := m] ! i)) (targets ! i) \<le> sqdist (cells ! j) (targets ! i)
             \<and> (j < nat (a[k := m] ! i) \<longrightarrow>
                  sqdist (cells ! nat (a[k := m] ! i)) (targets ! i) < sqdist (cells ! j) (targets ! i))"
  proof (intro allI impI)
    fix i j assume i: "i < Suc k" and j: "j < length cells"
      and nj: "int j \<notin> set (take i (a[k := m]))"
    show "sqdist (cells ! nat (a[k := m] ! i)) (targets ! i) \<le> sqdist (cells ! j) (targets ! i)
             \<and> (j < nat (a[k := m] ! i) \<longrightarrow>
                  sqdist (cells ! nat (a[k := m] ! i)) (targets ! i) < sqdist (cells ! j) (targets ! i))"
    proof (cases "i = k")
      case True
      have "\<not> u ! j" using nj True usd j by simp
      then show ?thesis using m3 m4 j True k la by simp
    next
      case False
      then have ik: "i < k" using i by simp
      then have "take i (a[k := m]) = take i a" by simp
      with nj have "int j \<notin> set (take i a)" by simp
      with mn ik j show ?thesis by (simp add: nth_list_update)
    qed
  qed
  show ?thesis
    unfolding step assign_inv_def using A B C D la lu by simp
qed

lemma assign_inv_loop:
  assumes len: "length cells = length targets"
    and cs: "\<forall>c\<in>set cells. on_screen c" and ts: "\<forall>t\<in>set targets. on_screen t"
  shows "k \<le> length targets \<Longrightarrow> assign_inv cells targets k (assign_loop cells targets k)"
proof (induction k)
  case 0
  show ?case by (simp add: assign_inv_def assign_loop_def)
next
  case (Suc k)
  then have "assign_inv cells targets k (assign_loop cells targets k)" and "k < length targets"
    by simp_all
  from assign_inv_step [OF this len cs ts] show ?case
    by (simp add: assign_loop_def)
qed


lemma assign_spec:
  assumes len: "length cells = length targets"
    and cs: "\<forall>c\<in>set cells. on_screen c" and ts: "\<forall>t\<in>set targets. on_screen t"
  shows "length (assign cells targets) = length targets
       \<and> (\<forall>i<length targets. 0 \<le> assign cells targets ! i
              \<and> nat (assign cells targets ! i) < length cells)
       \<and> distinct (assign cells targets)
       \<and> (\<forall>i<length targets. \<forall>j<length cells. int j \<notin> set (take i (assign cells targets)) \<longrightarrow>
             sqdist (cells ! nat (assign cells targets ! i)) (targets ! i)
               \<le> sqdist (cells ! j) (targets ! i))"
proof -
  have inv: "assign_inv cells targets (length targets) (assign_loop cells targets (length targets))"
    using assign_inv_loop [OF len cs ts, of "length targets"] by simp
  then have l: "length (assign cells targets) = length targets"
    by (simp add: assign_inv_def assign_def)
  then have "take (length targets) (assign cells targets) = assign cells targets"
    by simp
  with inv l show ?thesis
    unfolding assign_inv_def assign_def [symmetric] by simp
qed

lemma reconcile_spec:
  assumes "liveCells \<noteq> []" and "mset (shuffle liveCells) = mset liveCells"
  shows "\<exists>u. reconcile shuffle liveCells n = Inr u \<and> length u = n \<and> set u \<subseteq> set liveCells
       \<and> (n \<le> length liveCells \<longrightarrow> mset u \<subseteq># mset liveCells)
       \<and> (length liveCells < n \<longrightarrow> (\<forall>k<n. u ! k = liveCells ! (k mod length liveCells)))"
proof (cases "n \<le> length liveCells")
  case True
  have l: "length (shuffle liveCells) = length liveCells"
    using assms(2) by (rule mset_eq_length)
  have "mset (take n (shuffle liveCells)) + mset (drop n (shuffle liveCells)) = mset liveCells"
    using assms(2) by (simp flip: mset_append)
  then have sub: "mset (take n (shuffle liveCells)) \<subseteq># mset liveCells"
    by (metis mset_subset_eq_add_left)
  then have "set (take n (shuffle liveCells)) \<subseteq> set liveCells"
    by (metis set_mset_mono set_mset_mset)
  with True l sub show ?thesis by (simp add: reconcile_def)
next
  case False
  from dup_loop_spec [OF assms(1), of liveCells n] obtain u where
    u: "dup_loop liveCells liveCells n = Inr u" "length u = max n (length liveCells)"
       "take (length liveCells) u = liveCells"
       "\<forall>k. length liveCells \<le> k \<and> k < length u \<longrightarrow> u ! k = liveCells ! (k mod length liveCells)"
    by blast
  have len: "length u = n" using u(2) False by (simp add: max_def)
  have nth: "u ! k = liveCells ! (k mod length liveCells)" if "k < n" for k
  proof (cases "k < length liveCells")
    case True
    have "take (length liveCells) u ! k = liveCells ! k" by (simp only: u(3))
    with True show ?thesis by simp
  next
    case False
    with u(4) that len show ?thesis by simp
  qed
  have "set u \<subseteq> set liveCells"
  proof
    fix p assume "p \<in> set u"
    then obtain k where "k < n" "p = u ! k" using len by (auto simp: in_set_conv_nth)
    then have "p = liveCells ! (k mod length liveCells)" using nth by simp
    then show "p \<in> set liveCells" using assms(1) by simp
  qed
  with False u(1) len nth show ?thesis by (simp add: reconcile_def)
qed

lemma collect_live_on_screen:
  assumes "rows \<le> 28" "cols \<le> 53"
  shows "\<forall>p\<in>set (collect_live g rows cols). on_screen p"
  using assms
  by (auto simp: collect_live_def on_screen_def golCellSize_def screenWidth_def screenHeight_def
      split: if_splits)

lemma collect_live_nonempty:
  "\<not> all_dead g rows cols \<Longrightarrow> collect_live g rows cols \<noteq> []"
  by (auto simp: collect_live_def all_dead_def list_all_iff)

text \<open>
  C8, as amended. For every non-empty list of target points on the screen and every
  grid of at most 28 by 53 cells with at least one live cell, whatever permutation
  the shuffle produces: the reconciliation returns as many source cells as there
  are target points (a sub-multiset of the live cells when these are at least as
  many as the targets, the live cells repeated in turn when they are fewer), and
  the greedy assignment gives every target point, in scan order, one source slot;
  no slot is used twice, and the slot of a target is at minimal squared distance
  among the slots not used by earlier targets. The claim as stated also covers the
  empty set of live cells, where the code has nothing to repeat.
\<close>

theorem morph_assignment:
  assumes "targets \<noteq> []" and "\<forall>t\<in>set targets. on_screen t"
    and "\<not> all_dead (golGrid s) (golRows s) (golCols s)"
    and "golRows s \<le> 28" and "golCols s \<le> 53"
    and "mset (shuffle (collect_live (golGrid s) (golRows s) (golCols s)))
           = mset (collect_live (golGrid s) (golRows s) (golCols s))"
  shows "\<exists>usedCells a. animateToBusyBee targets shuffle s = Inr (usedCells, a)
       \<and> length usedCells = length targets \<and> length a = length targets
       \<and> (length targets \<le> length (collect_live (golGrid s) (golRows s) (golCols s)) \<longrightarrow>
            mset usedCells \<subseteq># mset (collect_live (golGrid s) (golRows s) (golCols s)))
       \<and> (length (collect_live (golGrid s) (golRows s) (golCols s)) < length targets \<longrightarrow>
            (\<forall>k<length targets. usedCells ! k
               = collect_live (golGrid s) (golRows s) (golCols s)
                   ! (k mod length (collect_live (golGrid s) (golRows s) (golCols s)))))
       \<and> (\<forall>i<length targets. 0 \<le> a ! i \<and> nat (a ! i) < length usedCells)
       \<and> distinct a
       \<and> (\<forall>i<length targets. \<forall>j<length usedCells. int j \<notin> set (take i a) \<longrightarrow>
             sqdist (usedCells ! nat (a ! i)) (targets ! i) \<le> sqdist (usedCells ! j) (targets ! i))"
proof -
  let ?live = "collect_live (golGrid s) (golRows s) (golCols s)"
  have ne: "?live \<noteq> []" using assms(3) by (rule collect_live_nonempty)
  from reconcile_spec [where liveCells = "?live" and shuffle = shuffle and n = "length targets",
      OF ne assms(6)] obtain u where
    u: "reconcile shuffle ?live (length targets) = Inr u" "length u = length targets"
       "set u \<subseteq> set ?live"
       "length targets \<le> length ?live \<longrightarrow> mset u \<subseteq># mset ?live"
       "length ?live < length targets \<longrightarrow> (\<forall>k<length targets. u ! k = ?live ! (k mod length ?live))"
    by blast
  have us: "\<forall>c\<in>set u. on_screen c"
    using u(3) collect_live_on_screen [OF assms(4,5), of "golGrid s"] by blast
  have an: "animateToBusyBee targets shuffle s = Inr (u, assign u targets)"
    using assms(1) u(1) by (simp add: animateToBusyBee_def)
  from assign_spec [OF u(2) us assms(2)] u an show ?thesis by simp
qed

lemma blinker_not_dead:
  "\<not> all_dead (golGrid (initGameOfLife blinker_rnd gol_boot)) 28 53"
proof
  assume "all_dead (golGrid (initGameOfLife blinker_rnd gol_boot)) 28 53"
  then have "golGrid (initGameOfLife blinker_rnd gol_boot) ! 1 ! 0 = 0"
    by (simp add: all_dead_iff)
  then show False by (simp add: init_cell blinker_rnd_def)
qed

theorem morph_assignment_witness:
  "outline4 \<noteq> [] \<and> list_all on_screen outline4
   \<and> \<not> all_dead (golGrid (initGameOfLife blinker_rnd gol_boot))
          (golRows (initGameOfLife blinker_rnd gol_boot)) (golCols (initGameOfLife blinker_rnd gol_boot))
   \<and> (\<exists>usedCells a. animateToBusyBee outline4 id (initGameOfLife blinker_rnd gol_boot)
           = Inr (usedCells, a)
         \<and> length usedCells = length outline4 \<and> length a = length outline4 \<and> distinct a
         \<and> (\<forall>i<length outline4. 0 \<le> a ! i \<and> nat (a ! i) < length usedCells))"
proof -
  let ?s = "initGameOfLife blinker_rnd gol_boot"
  have h1: "outline4 \<noteq> []" by (simp add: outline4_def)
  have h2: "\<forall>t\<in>set outline4. on_screen t"
    by (simp add: outline4_def on_screen_def screenWidth_def screenHeight_def)
  have h3: "\<not> all_dead (golGrid ?s) (golRows ?s) (golCols ?s)"
    using blinker_not_dead by simp
  have h4: "golRows ?s \<le> 28" and h5: "golCols ?s \<le> 53" by simp_all
  have h6: "mset (id (collect_live (golGrid ?s) (golRows ?s) (golCols ?s)))
              = mset (collect_live (golGrid ?s) (golRows ?s) (golCols ?s))" by simp
  from morph_assignment [where targets = outline4 and s = "?s" and shuffle = id,
      OF h1 h2 h3 h4 h5 h6] h1 h2 h3
  show ?thesis unfolding list_all_iff by blast
qed

theorem no_source_no_reconciliation:
  "\<not> (\<exists>usedCells. reconcile id [] (length [(100, 80) :: point]) = Inr usedCells
         \<and> length usedCells = length [(100, 80) :: point])"
  by (simp add: reconcile_def dup_loop_no_live)

lemma assign_example:
  "assign [(3, 3), (9, 3), (15, 3)] [(10, 3), (2, 2), (4, 4)] = [1, 0, 2]"
  by (simp add: assign_def assign_loop_def assign_step_def nearest_def nearest_step_def
      sqdist_def upt_rec Let_def)


section \<open>The main button\<close>

lemma idx_cases: "idx < 5 \<Longrightarrow> idx = 0 \<or> idx = 1 \<or> idx = 2 \<or> idx = 3 \<or> idx = (4::nat)"
  by arith

lemma cycle_loop_0: "cycle_ok slots 0 (cycle_loop slots 0 0)"
  by (simp add: cycle_loop.simps cycle_ok_def selectable_def Let_def upt_rec)

lemma cycle_loop_1: "cycle_ok slots 1 (cycle_loop slots 1 0)"
  by (simp add: cycle_loop.simps cycle_ok_def selectable_def Let_def upt_rec)

lemma cycle_loop_2: "cycle_ok slots 2 (cycle_loop slots 2 0)"
  by (simp add: cycle_loop.simps cycle_ok_def selectable_def Let_def upt_rec)

lemma cycle_loop_3: "cycle_ok slots 3 (cycle_loop slots 3 0)"
  by (simp add: cycle_loop.simps cycle_ok_def selectable_def Let_def upt_rec)

lemma cycle_loop_4: "cycle_ok slots 4 (cycle_loop slots 4 0)"
  by (simp add: cycle_loop.simps cycle_ok_def selectable_def Let_def upt_rec)

lemma cycle_loop_ok: "idx < 5 \<Longrightarrow> cycle_ok slots idx (cycle_loop slots idx 0)"
  using idx_cases [of idx] cycle_loop_0 cycle_loop_1 cycle_loop_2 cycle_loop_3 cycle_loop_4
  by auto

lemma saveStatus_fields [simp]:
  "statusIndex (saveStatus s) = statusIndex s" "isBusy (saveStatus s) = isBusy s"
  "customText (saveStatus s) = customText s" "customColor (saveStatus s) = customColor s"
  "customStatuses (saveStatus s) = customStatuses s" "needSaveStatus (saveStatus s) = needSaveStatus s"
  "lastSaveCheck (saveStatus s) = lastSaveCheck s" "gameOfLifeRunning (saveStatus s) = gameOfLifeRunning s"
  by (simp_all add: saveStatus_def saveCustomStatuses_def)

lemma applyStatusIndex_fields [simp]:
  "statusIndex (applyStatusIndex s) = statusIndex s"
  "customStatuses (applyStatusIndex s) = customStatuses s"
  by (simp_all add: applyStatusIndex_def)

text \<open>
  C5. A qualifying short press (released after more than 30 ms and less than
  3000 ms, more than 300 ms after the last accepted press, no animation running)
  moves the status index forward in the cycle Busy, Available, Custom1, Custom2,
  Custom3 to the next index that can be selected: every index passed over is a
  custom slot with an empty text, the new index is a preset or a slot with a text,
  and the probe loop, a total function, makes at most 5 probes. With the slots
  "", "LUNCH", "" repeated presses show Available, Custom2, Busy, Available.
\<close>

theorem short_press_cycles:
  assumes "buttonWasPressed s" and "30 < now - buttonPressTime s"
    and "now - buttonPressTime s < longPressDuration" and "300 < now - lastPress s"
    and "\<not> gameOfLifeRunning s" and "statusIndex s < 5"
  shows "\<exists>s'. handleButtonPress False False nowR now s = Continue s'
      \<and> 1 \<le> snd (cycle_loop (customStatuses s) (statusIndex s) 0)
      \<and> snd (cycle_loop (customStatuses s) (statusIndex s) 0) \<le> 5
      \<and> statusIndex s' = (statusIndex s + snd (cycle_loop (customStatuses s) (statusIndex s) 0)) mod 5
      \<and> selectable (customStatuses s) (statusIndex s')
      \<and> (\<forall>k. 1 \<le> k \<and> k < snd (cycle_loop (customStatuses s) (statusIndex s) 0)
             \<longrightarrow> \<not> selectable (customStatuses s) ((statusIndex s + k) mod 5))"
proof -
  have ok: "cycle_ok (customStatuses s) (statusIndex s) (cycle_loop (customStatuses s) (statusIndex s) 0)"
    using assms(6) by (rule cycle_loop_ok)
  have nl: "\<not> longPressDuration \<le> now - buttonPressTime s"
    using assms(3) by simp
  show ?thesis
    using assms(1,2,4,5) nl ok
    by (auto simp: handleButtonPress_def mainButton_def Let_def cycle_ok_def list_all_iff)
qed

theorem short_press_cycles_witness:
  "buttonWasPressed (held_since 1000 (dev_boot lunch_slots))
   \<and> 30 < 1100 - buttonPressTime (held_since 1000 (dev_boot lunch_slots))
   \<and> 1100 - buttonPressTime (held_since 1000 (dev_boot lunch_slots)) < longPressDuration
   \<and> 300 < 1100 - lastPress (held_since 1000 (dev_boot lunch_slots))
   \<and> \<not> gameOfLifeRunning (held_since 1000 (dev_boot lunch_slots))
   \<and> statusIndex (held_since 1000 (dev_boot lunch_slots)) < 5
   \<and> shown (handleButtonPress False False 1100 1100 (held_since 1000 (dev_boot lunch_slots)))
       = Some (1, LETS_TALK)
   \<and> map (\<lambda>ts. shown (presses ts (dev_boot lunch_slots)))
        [[], [1000], [1000, 2000], [1000, 2000, 3000], [1000, 2000, 3000, 4000]]
       = [Some (0, ''BUSY''), Some (1, LETS_TALK), Some (3, ''LUNCH''),
          Some (0, ''BUSY''), Some (1, LETS_TALK)]"
  using short_press_cycles [of "held_since 1000 (dev_boot lunch_slots)" 1100 1100]
  by (simp add: press_release_def handleButtonPress_def mainButton_def dev_boot_def lunch_slots_def
      held_since_def Let_def cycle_loop.simps applyStatusIndex_def saveStatus_def
      saveCustomStatuses_def longPressDuration_def strncpy31_def c_str_def)




text \<open>
  While the animation runs, a short press stops it and leaves the status as it is.
\<close>

lemma short_press_stops_animation:
  assumes "buttonWasPressed s" and "30 < now - buttonPressTime s"
    and "now - buttonPressTime s < longPressDuration" and "300 < now - lastPress s"
    and "gameOfLifeRunning s"
  shows "handleButtonPress False False nowR now s
       = Continue (s\<lparr>gameOfLifeRunning := False, lastPress := now, buttonPressTime := 0,
                     buttonWasPressed := False\<rparr>)"
proof -
  have "\<not> longPressDuration \<le> now - buttonPressTime s" using assms(3) by (simp add: not_le)
  then show ?thesis
    using assms by (simp add: handleButtonPress_def mainButton_def Let_def)
qed

section \<open>Text inputs\<close>

lemma c_str_length: "length (c_str t) \<le> length t"
  by (simp add: c_str_def length_takeWhile_le)

lemma strncpy31_short: "length t \<le> 20 \<Longrightarrow> strncpy31 t = c_str t"
  using c_str_length [of t] by (simp add: strncpy31_def)

lemma c_str_no_nul: "CHR 0x00 \<notin> set t \<Longrightarrow> c_str t = t"
  by (auto simp: c_str_def takeWhile_eq_all_conv)

lemma serverSetCustom_text:
  "customText (serverSetCustom l t c s) =
     (if 0 < length t \<and> length t \<le> 20 then strncpy31 t else customText s)"
  by (simp add: serverSetCustom_def serverSetCustom_steps_def run_def split: option.splits)

lemma setCustomStatus_text:
  "i < length (customStatuses s) \<Longrightarrow>
   ctext (customStatuses (setCustomStatus l i t c s) ! i) =
     (if length t \<le> 20 then strncpy31 t else ctext (customStatuses s ! i))"
  by (simp add: setCustomStatus_def setCustomStatus_steps_def run_def saveCustomStatuses_def
      split: option.splits)

text \<open>
  C7, as amended. A set-custom-text command stores a text of 1 to 20 characters in
  full and silently ignores an empty text or one longer than 20 characters, keeping
  the previous text; a custom-slot command stores a text of at most 20 characters in
  full and silently ignores a longer one. No text is ever cut to the 31 characters
  of the buffer and none is an error. An empty text for a custom slot is accepted
  and leaves the slot unset: it cannot be selected. The claim as stated has a text
  longer than the buffer cut to its bound and stored.
\<close>

theorem text_input_rule:
  assumes "i < 3" and "length (customStatuses s) = 3"
  shows "(0 < length t \<and> length t \<le> 20 \<longrightarrow> customText (serverSetCustom l t c s) = c_str t)
       \<and> (20 < length t \<longrightarrow> customText (serverSetCustom l t c s) = customText s)
       \<and> (length t \<le> 20 \<longrightarrow> ctext (customStatuses (setCustomStatus l i t c s) ! i) = c_str t)
       \<and> (20 < length t \<longrightarrow>
            ctext (customStatuses (setCustomStatus l i t c s) ! i) = ctext (customStatuses s ! i))
       \<and> (t = [] \<longrightarrow> ctext (customStatuses (setCustomStatus l i t c s) ! i) = []
                      \<and> \<not> selectable (customStatuses (setCustomStatus l i t c s)) (i + 2))"
  using assms
  by (simp add: serverSetCustom_text setCustomStatus_text strncpy31_short selectable_def c_str_def)

theorem text_input_rule_witness:
  "(1::nat) < 3 \<and> length (customStatuses (dev_boot lunch_slots)) = 3
   \<and> customText (serverSetCustom lib0 ''IN A MEETING'' [] (dev_boot lunch_slots)) = ''IN A MEETING''
   \<and> ctext (customStatuses (setCustomStatus lib0 1 [] [] (dev_boot lunch_slots)) ! 1) = []
   \<and> \<not> selectable (customStatuses (setCustomStatus lib0 1 [] [] (dev_boot lunch_slots))) 3
   \<and> customText (serverSetCustom lib0 ''A TEXT OF TWENTY-ONE.'' [] (dev_boot lunch_slots)) = ''BUSY''"
  using text_input_rule [of 1 "dev_boot lunch_slots" "''IN A MEETING''" lib0 "[]"]
    text_input_rule [of 1 "dev_boot lunch_slots" "[]" lib0 "[]"]
    text_input_rule [of 1 "dev_boot lunch_slots" "''A TEXT OF TWENTY-ONE.''" lib0 "[]"]
  by (simp add: dev_boot_def lunch_slots_def c_str_def serverSetCustom_text setCustomStatus_text
      strncpy31_def selectable_def)

theorem long_text_is_ignored:
  "customText (serverSetCustom lib0 (replicate 32 (CHR ''A'')) [] (dev_boot lunch_slots)) = ''BUSY''
   \<and> ctext (customStatuses (setCustomStatus lib0 1 (replicate 32 (CHR ''A'')) [] (dev_boot lunch_slots)) ! 1)
       = ''LUNCH''
   \<and> strncpy31 (replicate 32 (CHR ''A'')) = replicate 31 (CHR ''A'')"
  by (simp add: serverSetCustom_text setCustomStatus_text dev_boot_def lunch_slots_def
      strncpy31_def c_str_def)

section \<open>Status writes and the display task\<close>

lemma observable3:
  "observable [f, g, h] s = [s, f s, g (f s), h (g (f s))]"
  by (simp add: observable_def run_def upt_rec)

lemma setStatus_steps_slot:
  assumes "take 6 status = ''CUSTOM''" and "status \<noteq> ''CUSTOM''"
  shows "setStatus_steps l status argText argColor
       = [slot_write l status, \<lambda>s. s\<lparr>textX := int screenWidth\<rparr>, saveStatus]"
proof -
  have ne: "status \<noteq> ''BUSY''" "status \<noteq> ''TALK''" using assms(1) by auto
  show ?thesis
    using assms ne by (simp add: setStatus_steps_def Let_def)
qed

lemma slot_write_pair:
  "(customText (slot_write l status s), customColor (slot_write l status s))
     = (customText s, customColor s)
   \<or> (\<exists>i<3. (customText (slot_write l status s), customColor (slot_write l status s))
             = (strncpy31 (ctext (customStatuses s ! i)), ccolor (customStatuses s ! i)))"
proof (cases "0 \<le> toInt l (drop 6 status) - 1 \<and> toInt l (drop 6 status) - 1 < 3
     \<and> length (ctext (customStatuses s ! nat (toInt l (drop 6 status) - 1))) > 0")
  case True
  then have "nat (toInt l (drop 6 status) - 1) < 3" by arith
  with True show ?thesis by (auto simp: slot_write_def Let_def)
next
  case False
  then show ?thesis by (auto simp: slot_write_def Let_def)
qed

text \<open>
  The custom-slot branch of \<^verbatim>\<open>/setStatus\<close> writes text and colour in one critical
  section: between the steps of this model there is only the old pair or the new
  pair. Since the display task takes no lock, the device gives at most this.
\<close>

lemma slot_status_write_is_atomic:
  assumes "take 6 status = ''CUSTOM''" and "status \<noteq> ''CUSTOM''"
    and "t \<in> set (observable (setStatus_steps l status argText argColor) s)"
  shows "(customText t, customColor t) = (customText s, customColor s)
       \<or> (\<exists>i<3. (customText t, customColor t)
             = (strncpy31 (ctext (customStatuses s ! i)), ccolor (customStatuses s ! i)))"
proof -
  from assms(3) have "customText t = customText s \<and> customColor t = customColor s
      \<or> customText t = customText (slot_write l status s)
        \<and> customColor t = customColor (slot_write l status s)"
    unfolding setStatus_steps_slot [OF assms(1,2)] observable3
    by (auto simp: saveStatus_def saveCustomStatuses_def)
  then show ?thesis using slot_write_pair [of l status s] by auto
qed

text \<open>
  C3. The claim: every status change of text and colour (button cycle, SetStatus
  BUSY, TALK and CUSTOMi, SetCustomText) writes both inside one critical section,
  so that the display task never sees a new text with an old colour. The code:
  the BUSY and TALK branches of \<^verbatim>\<open>/setStatus\<close> write with no critical section, and
  \<^verbatim>\<open>serverSetCustom\<close> writes the text in one critical section and the colour in
  another. From the status BUSY on red, the command TALK passes through LET'S TALK
  on red, and the command CUSTOM with the text FOCUS and a blue colour passes
  through FOCUS on red.
\<close>

theorem status_write_is_torn:
  "(LETS_TALK, TFT_RED) \<in> set (map (\<lambda>s. (customText s, customColor s))
       (observable (setStatus_steps lib0 ''TALK'' [] []) (dev_boot lunch_slots)))
   \<and> (''FOCUS'', TFT_RED) \<in> set (map (\<lambda>s. (customText s, customColor s))
       (observable (setStatus_steps lib0 ''CUSTOM'' ''FOCUS'' ''#0000ff'') (dev_boot lunch_slots)))"
  by (simp add: observable_def setStatus_steps_def serverSetCustom_steps_def run_def Let_def
      dev_boot_def LETS_TALK_def upt_rec TFT_RED_def TFT_GREEN_def strncpy31_def c_str_def
      parse_color_def lib0_def rgbTo565_def)

section \<open>The debounced save\<close>

lemma serverSetCustom_fields [simp]:
  "prefs (serverSetCustom l t c s) = prefs s"
  "lastSaveCheck (serverSetCustom l t c s) = lastSaveCheck s"
  "needSaveStatus (serverSetCustom l t c s)"
  by (simp_all add: serverSetCustom_def serverSetCustom_steps_def run_def split: option.splits)



lemma saveStatus_prefs: "prefs (saveStatus s) = prefs s @ persisted_fields s"
  by (simp add: saveStatus_def saveCustomStatuses_def persisted_fields_def slot_key_def upt_rec
      numeral_2_eq_2)





lemma serverSetCustom_idle [simp]:
  "gameOfLifeRunning (serverSetCustom l t c s) = gameOfLifeRunning s"
  "buttonWasPressed (serverSetCustom l t c s) = buttonWasPressed s"
  by (simp_all add: serverSetCustom_def serverSetCustom_steps_def run_def split: option.splits)

lemma mutations_idle [simp]:
  "gameOfLifeRunning (mutations l ms s) = gameOfLifeRunning s"
  "buttonWasPressed (mutations l ms s) = buttonWasPressed s"
  by (induction ms rule: rev_induct) (simp_all add: mutations_def)

lemma applyStatusIndex_flag [simp]:
  "needSaveStatus (applyStatusIndex s) = needSaveStatus s"
  "lastSaveCheck (applyStatusIndex s) = lastSaveCheck s"
  by (simp_all add: applyStatusIndex_def)






text \<open>
  While the animation runs, a round of the display loop does not reach the save
  check; with the buttons up it leaves the preferences and the flag alone.
  Otherwise the round ends with the save check.
\<close>

lemma buttons_up_no_change:
  "\<not> buttonWasPressed s \<Longrightarrow> handleButtonPress False False nowR now s = Continue s"
proof -
  assume a: "\<not> buttonWasPressed s"
  have "s\<lparr>buttonWasPressed := buttonWasPressed s\<rparr> = s" by simp
  with a have "s\<lparr>buttonWasPressed := False\<rparr> = s" by simp
  with a show ?thesis by (simp add: handleButtonPress_def mainButton_def)
qed


lemma round_without_animation:
  "\<not> gameOfLifeRunning s \<Longrightarrow> \<not> buttonWasPressed s \<Longrightarrow>
   updateDisplay_round False False nowR now currentMillis s = Continue (saveCheck currentMillis s)"
  by (simp add: updateDisplay_round_def buttons_up_no_change)

lemma persisted_fields_saveStatus [simp]:
  "persisted_fields (saveStatus s) = persisted_fields s"
  by (simp add: persisted_fields_def saveStatus_def saveCustomStatuses_def)

lemma persisted_fields_bookkeeping [simp]:
  "persisted_fields (s\<lparr>lastPress := a, buttonPressTime := b, buttonWasPressed := c\<rparr>)
     = persisted_fields s"
  "persisted_fields (s\<lparr>textX := x\<rparr>) = persisted_fields s"
  by (simp_all add: persisted_fields_def)

text \<open>
  The other status changes do not go through the flag: the handler of
  \<^verbatim>\<open>/setStatus\<close> and the button cycle call \<^verbatim>\<open>saveStatus\<close>, which writes at once.
\<close>

lemma setStatus_saves_at_once:
  "prefs (setStatus l ''BUSY'' argText argColor s)
     = prefs s @ persisted_fields (setStatus l ''BUSY'' argText argColor s)
   \<and> needSaveStatus (setStatus l ''BUSY'' argText argColor s) = needSaveStatus s"
  by (simp add: setStatus_def setStatus_steps_def run_def Let_def saveStatus_prefs)

lemma button_cycle_saves_at_once:
  assumes "buttonWasPressed s" and "30 < now - buttonPressTime s"
    and "now - buttonPressTime s < longPressDuration" and "300 < now - lastPress s"
    and "\<not> gameOfLifeRunning s"
  shows "\<exists>s'. handleButtonPress False False nowR now s = Continue s'
       \<and> prefs s' = prefs s @ persisted_fields s' \<and> needSaveStatus s' = needSaveStatus s"
proof -
  have "\<not> longPressDuration \<le> now - buttonPressTime s" using assms(3) by (simp add: not_le)
  moreover have "prefs (applyStatusIndex t) = prefs t"
    "needSaveStatus (applyStatusIndex t) = needSaveStatus t" for t
    by (simp_all add: applyStatusIndex_def)
  ultimately show ?thesis
    using assms
    by (simp add: handleButtonPress_def mainButton_def Let_def saveStatus_prefs)
qed


text \<open>
  A long press released in the round sends the device to sleep before the save
  check: what the flag announces is not written.
\<close>

lemma sleep_before_flush:
  assumes "buttonWasPressed s" and "longPressDuration \<le> now - buttonPressTime s"
  shows "updateDisplay_round False False nowR now currentMillis s = DeepSleep"
  using assms
  by (simp add: updateDisplay_round_def handleButtonPress_def mainButton_def Let_def)

text \<open>
  A command that lands while the flush is under way: whatever it sets, the last
  step of the flush clears the flag. After the first two calls of the flush the
  text FOCUS is written; the command LUNCH then changes the text and sets the
  flag; the flush ends with the flag cleared, and LUNCH is in no preference.
\<close>

lemma flush_overlap_clears_flag:
  "k \<le> length saveStatus_steps \<Longrightarrow>
   \<not> needSaveStatus (overlapped k cmd reallySaveStatus_steps s)"
  by (simp add: overlapped_def reallySaveStatus_steps_def run_def)

lemma flush_loses_overlapping_command:
  "customText (overlapped 2 (serverSetCustom lib0 ''LUNCH'' []) reallySaveStatus_steps
      (mutations lib0 [(''FOCUS'', [])] (dev_boot lunch_slots))) = ''LUNCH''
   \<and> \<not> needSaveStatus (overlapped 2 (serverSetCustom lib0 ''LUNCH'' []) reallySaveStatus_steps
      (mutations lib0 [(''FOCUS'', [])] (dev_boot lunch_slots)))
   \<and> map_of (rev (prefs (overlapped 2 (serverSetCustom lib0 ''LUNCH'' []) reallySaveStatus_steps
      (mutations lib0 [(''FOCUS'', [])] (dev_boot lunch_slots))))) ''customText''
       = Some (PString ''FOCUS'')"
  by (simp add: overlapped_def reallySaveStatus_steps_def saveStatus_steps_def run_def put_def
      mutations_def serverSetCustom_def serverSetCustom_steps_def dev_boot_def lunch_slots_def
      lib0_def parse_color_def strncpy31_def c_str_def slot_key_def upt_rec)




section \<open>The end of a frame with a live cell\<close>

lemma cycle_found_iff:
  "length hist = HASH_HISTORY \<Longrightarrow> cycle_found hist h \<longleftrightarrow> h \<in> set hist"
  by (auto simp: cycle_found_def list_ex_iff in_set_conv_nth)

lemma cleared_history_matches_zero:
  "cycle_found (replicate HASH_HISTORY 0) 0"
  by (simp add: cycle_found_def HASH_HISTORY_def upt_rec)

lemma animate_returns:
  assumes "\<not> all_dead (golGrid s) (golRows s) (golCols s)"
    and "mset (shuffle (collect_live (golGrid s) (golRows s) (golCols s)))
           = mset (collect_live (golGrid s) (golRows s) (golCols s))"
  shows "\<exists>r. animateToBusyBee targets shuffle s = Inr r"
proof -
  let ?live = "collect_live (golGrid s) (golRows s) (golCols s)"
  have ne: "?live \<noteq> []" using assms(1) by (rule collect_live_nonempty)
  from reconcile_spec [where liveCells = "?live" and shuffle = shuffle and n = "length targets",
      OF ne assms(2)]
  show ?thesis by (auto simp: animateToBusyBee_def)
qed

text \<open>
  The two branches of the end of a frame that return: with a live cell in the new
  generation and a matching history slot, the grid is built anew and the history
  cleared; with a live cell and no matching slot, only the fingerprint is written
  to the ring buffer.
\<close>

lemma check_phase_cycle:
  assumes "\<not> all_dead (golGrid s) (golRows s) (golCols s)"
    and "cycle_found (hashHistory s) (grid_hash (golGrid s) (golRows s) (golCols s))"
    and "mset (shuffle (collect_live (golGrid s) (golRows s) (golCols s)))
           = mset (collect_live (golGrid s) (golRows s) (golCols s))"
  shows "\<exists>s'. check_phase targets shuffle rnd s = Inr s'
       \<and> hashHistory s' = replicate HASH_HISTORY 0 \<and> hashIdx s' = 0
       \<and> golGrid s' = golGrid (initGameOfLife rnd s) \<and> golFrame s' = 0"
proof -
  let ?s1 = "s\<lparr>hashHistory := (hashHistory s)[hashIdx s := grid_hash (golGrid s) (golRows s) (golCols s)],
                 hashIdx := (hashIdx s + 1) mod HASH_HISTORY\<rparr>"
  have "\<exists>r. animateToBusyBee targets shuffle ?s1 = Inr r"
    using animate_returns [of ?s1 shuffle targets] assms(1,3) by simp
  then show ?thesis
    using assms(2) by (auto simp: check_phase_def Let_def initGameOfLife_def)
qed

lemma check_phase_no_reset:
  assumes "\<not> all_dead (golGrid s) (golRows s) (golCols s)"
    and "\<not> cycle_found (hashHistory s) (grid_hash (golGrid s) (golRows s) (golCols s))"
  shows "check_phase targets shuffle rnd s
       = Inr (s\<lparr>hashHistory := (hashHistory s)[hashIdx s := grid_hash (golGrid s) (golRows s) (golCols s)],
                 hashIdx := (hashIdx s + 1) mod HASH_HISTORY\<rparr>)"
  using assms by (simp add: check_phase_def Let_def)

end
